theory Spec2Isabelle
  imports Complex_Main "HOL-Library.Product_Lexorder"
begin

section \<open>Retry and backoff policy (lib/retry.ts)\<close>

text \<open>
  \<^verbatim>\<open>RetryConfig\<close> of lib/step-types.ts. The retry count is a loop bound and is kept as a
  natural number; the three delay fields are JavaScript numbers, read here as reals.
\<close>

record RetryConfig =
  maxRetries :: nat
  backoffMs :: real
  backoffMultiplier :: real
  maxBackoffMs :: real

definition DEFAULT_RETRY_CONFIG :: RetryConfig where
  "DEFAULT_RETRY_CONFIG =
     \<lparr>maxRetries = 3, backoffMs = 500, backoffMultiplier = 2, maxBackoffMs = 8000\<rparr>"

text \<open>
  \<^verbatim>\<open>const delay = config.backoffMs * Math.pow(config.backoffMultiplier, attempt);
  return Math.min(delay, config.maxBackoffMs);\<close>
\<close>

definition calcBackoff :: "nat \<Rightarrow> RetryConfig \<Rightarrow> real" where
  "calcBackoff attempt config =
     (let delay = backoffMs config * backoffMultiplier config ^ attempt
      in min delay (maxBackoffMs config))"

text \<open>
  The decision of the \<^verbatim>\<open>OnStepFail\<close> callback. The callback is optional, and
  \<^verbatim>\<open>onStepFail?.(stepIndex, lastError, attempt) ?? 'retry'\<close> reads a missing callback as
  \<^verbatim>\<open>'retry'\<close>.
\<close>

datatype fail_action = Retry | Skip | Abort

type_synonym OnStepFail = "nat \<Rightarrow> string \<Rightarrow> nat \<Rightarrow> fail_action"

definition decide :: "OnStepFail option \<Rightarrow> nat \<Rightarrow> string \<Rightarrow> nat \<Rightarrow> fail_action" where
  "decide onStepFail stepIndex lastError attempt =
     (case onStepFail of None \<Rightarrow> Retry | Some cb \<Rightarrow> cb stepIndex lastError attempt)"

text \<open>
  What one call of \<^verbatim>\<open>withRetry\<close> did: how it ended (a value, \<^verbatim>\<open>null\<close>, or a thrown
  error, given by its message), how many times the operation was invoked, every answer the
  callback gave (with the attempt number it was asked at), and the delays slept.
\<close>

datatype 'a retry_outcome = Returned 'a | ReturnedNull | Threw string

record 'a retry_run =
  outcome :: "'a retry_outcome"
  calls :: nat
  consulted :: "(nat \<times> fail_action) list"
  slept :: "real list"

definition attempted :: "(nat \<times> fail_action) list \<Rightarrow> real list \<Rightarrow> 'a retry_run \<Rightarrow> 'a retry_run" where
  "attempted ds ss r = r\<lparr>calls := Suc (calls r), consulted := ds @ consulted r, slept := ss @ slept r\<rparr>"

text \<open>
  The loop \<^verbatim>\<open>for (let attempt = 0; attempt <= config.maxRetries; attempt++)\<close>. The
  operation \<^verbatim>\<open>fn\<close> is given by the outcome of its invocation at each attempt: \<open>Inl\<close> the
  message of the error it throws, \<open>Inr\<close> the value it resolves to.
\<close>

function withRetry_loop ::
  "nat \<Rightarrow> (nat \<Rightarrow> string + 'a) \<Rightarrow> RetryConfig \<Rightarrow> OnStepFail option \<Rightarrow> nat \<Rightarrow> string \<Rightarrow> 'a retry_run"
where
  "withRetry_loop stepIndex fn config onStepFail attempt lastError =
     (if attempt \<le> maxRetries config then
        (case fn attempt of
           Inr v \<Rightarrow> \<lparr>outcome = Returned v, calls = 1, consulted = [], slept = []\<rparr>
         | Inl err \<Rightarrow>
             (if attempt < maxRetries config then
                (let action = decide onStepFail stepIndex err attempt in
                 if action = Abort then
                   \<lparr>outcome = Threw err, calls = 1, consulted = [(attempt, action)], slept = []\<rparr>
                 else if action = Skip then
                   \<lparr>outcome = ReturnedNull, calls = 1, consulted = [(attempt, action)], slept = []\<rparr>
                 else
                   attempted [(attempt, action)] [calcBackoff attempt config]
                     (withRetry_loop stepIndex fn config onStepFail (Suc attempt) err))
              else
                attempted [] [] (withRetry_loop stepIndex fn config onStepFail (Suc attempt) err)))
      else \<lparr>outcome = Threw lastError, calls = 0, consulted = [], slept = []\<rparr>)"
  by pat_completeness auto
termination
  by (relation "measure (\<lambda>(stepIndex, fn, config, onStepFail, attempt, lastError).
        Suc (maxRetries config) - attempt)") auto

declare withRetry_loop.simps [simp del]

definition withRetry ::
  "nat \<Rightarrow> (nat \<Rightarrow> string + 'a) \<Rightarrow> RetryConfig \<Rightarrow> OnStepFail option \<Rightarrow> 'a retry_run"
where
  "withRetry stepIndex fn config onStepFail =
     withRetry_loop stepIndex fn config onStepFail 0 ''Unknown error''"

section \<open>Strings\<close>

text \<open>
  The string methods of the platform that the sources call. A string is a list of
  characters with codes 0 to 255; \<^verbatim>\<open>toLowerCase\<close> and \<^verbatim>\<open>trim\<close> are given on that range
  (the ASCII and Latin-1 letters, and the white space and line terminators below 256).
  A capital letter of that range has bit 5 clear, and its small letter is 32 above it:
  the same code with bit 5 set.
\<close>

definition lowerChar :: "char \<Rightarrow> char" where
  "lowerChar c =
     (let n = (of_char c :: nat) in
      if (65 \<le> n \<and> n \<le> 90) \<or> (192 \<le> n \<and> n \<le> 222 \<and> n \<noteq> 215)
      then Char (digit0 c) (digit1 c) (digit2 c) (digit3 c) (digit4 c) True (digit6 c) (digit7 c)
      else c)"

definition toLowerCase :: "string \<Rightarrow> string" where
  "toLowerCase s = map lowerChar s"

definition isSpace :: "char \<Rightarrow> bool" where
  "isSpace c = ((of_char c :: nat) \<in> {9, 10, 11, 12, 13, 32, 160})"

definition trim :: "string \<Rightarrow> string" where
  "trim s = rev (dropWhile isSpace (rev (dropWhile isSpace s)))"

definition startsWith :: "string \<Rightarrow> string \<Rightarrow> bool" where
  "startsWith s p = (take (length p) s = p)"

definition endsWith :: "string \<Rightarrow> string \<Rightarrow> bool" where
  "endsWith s p = (length p \<le> length s \<and> drop (length s - length p) s = p)"

fun includesStr :: "string \<Rightarrow> string \<Rightarrow> bool" where
  "includesStr [] p = (p = [])"
| "includesStr (c # cs) p = (startsWith (c # cs) p \<or> includesStr cs p)"

fun join :: "string \<Rightarrow> string list \<Rightarrow> string" where
  "join sep [] = []"
| "join sep [x] = x"
| "join sep (x # y # ys) = x @ sep @ join sep (y # ys)"

text \<open>The decimal digits of a number, as a template literal prints it.\<close>

function decimal :: "nat \<Rightarrow> string" where
  "decimal n = (if n < 10 then [''0123456789'' ! n] else decimal (n div 10) @ [''0123456789'' ! (n mod 10)])"
  by pat_completeness auto
termination
  by (relation "measure id") auto

declare decimal.simps [simp del]

text \<open>A string in a condition is true unless it is missing or empty.\<close>

definition truthy :: "string option \<Rightarrow> bool" where
  "truthy v = (case v of None \<Rightarrow> False | Some s \<Rightarrow> s \<noteq> [])"

section \<open>Domain allowlist (lib/domain-allowlist.ts)\<close>

text \<open>
  \<^verbatim>\<open>new URL(url).hostname\<close> belongs to the platform. The gate takes it as a parameter
  \<open>hostnameOf\<close>: \<open>None\<close> when the constructor throws, otherwise the host name.
\<close>

type_synonym url_parser = "string \<Rightarrow> string option"

text \<open>
  The body of \<^verbatim>\<open>for (const pattern of allowedDomains)\<close>, for a host name already in lower
  case; falling out of the loop is \<^verbatim>\<open>return false\<close>.
\<close>

fun matchesAllowlist :: "string \<Rightarrow> string list \<Rightarrow> bool" where
  "matchesAllowlist hostname [] = False"
| "matchesAllowlist hostname (pattern # rest) =
     (let lower = trim (toLowerCase pattern) in
      if startsWith lower ''*.'' then
        (let domain = drop 2 lower in
         if hostname = domain \<or> endsWith hostname (''.'' @ domain) then True
         else matchesAllowlist hostname rest)
      else
        (if hostname = lower then True else matchesAllowlist hostname rest))"

definition isDomainAllowed :: "url_parser \<Rightarrow> string \<Rightarrow> string list \<Rightarrow> bool" where
  "isDomainAllowed hostnameOf url allowedDomains =
     (if length allowedDomains = 0 then True
      else
        (case hostnameOf url of
           None \<Rightarrow> False
         | Some h \<Rightarrow> matchesAllowlist (toLowerCase h) allowedDomains))"

text \<open>\<^verbatim>\<open>assertDomainAllowed\<close>: \<open>Inl\<close> is the message of the error it throws.\<close>

definition securityMessage :: "string \<Rightarrow> string list \<Rightarrow> string \<Rightarrow> string" where
  "securityMessage url allowedDomains flowName =
     ''[SECURITY] Navigation to '' @ url @ '' is blocked by the domain allowlist for flow '' @
     [CHR 0x22] @ flowName @ [CHR 0x22] @ ''. '' @ ''Allowed domains: '' @ join '', '' allowedDomains"

definition assertDomainAllowed :: "url_parser \<Rightarrow> string \<Rightarrow> string list \<Rightarrow> string \<Rightarrow> string + unit" where
  "assertDomainAllowed hostnameOf url allowedDomains flowName =
     (if \<not> isDomainAllowed hostnameOf url allowedDomains
      then Inl (securityMessage url allowedDomains flowName)
      else Inr ())"

text \<open>
  A host-name reader for the concrete URLs below. It covers absolute \<^verbatim>\<open>http\<close> and \<^verbatim>\<open>https\<close>
  URLs written \<^verbatim>\<open>scheme://[userinfo@]host[:port][/path][?query][#fragment]\<close>, whose host
  name the platform returns in lower case, and reads every other string as one the
  constructor rejects (as it does a string with no scheme, such as \<^verbatim>\<open>not-a-url\<close>).
\<close>

definition afterLast :: "char \<Rightarrow> string \<Rightarrow> string" where
  "afterLast c s = rev (takeWhile (\<lambda>x. x \<noteq> c) (rev s))"

definition urlHostname :: url_parser where
  "urlHostname url =
     (let scheme = toLowerCase (takeWhile (\<lambda>c. c \<noteq> CHR '':'') url);
          rest = dropWhile (\<lambda>c. c \<noteq> CHR '':'') url
      in if (scheme = ''http'' \<or> scheme = ''https'') \<and> startsWith rest ''://'' then
           (let authority = takeWhile (\<lambda>c. c \<notin> {CHR ''/'', CHR ''?'', CHR ''#''}) (drop 3 rest);
                host = takeWhile (\<lambda>c. c \<noteq> CHR '':'') (afterLast CHR ''@'' authority)
            in if host = [] then None else Some (toLowerCase host))
         else None)"

text \<open>
  The gate as the specification words it, for comparison: with a non-empty allowlist a
  URL passes exactly when its host name, compared without regard to case, equals an entry,
  or an entry is \<^verbatim>\<open>*.<domain>\<close> and the host name is the domain or ends in \<^verbatim>\<open>.<domain>\<close>.
\<close>

definition entryPermits :: "string \<Rightarrow> string \<Rightarrow> bool" where
  "entryPermits hostname entry =
     (toLowerCase hostname = toLowerCase entry \<or>
      (startsWith entry ''*.'' \<and>
        (toLowerCase hostname = toLowerCase (drop 2 entry) \<or>
         endsWith (toLowerCase hostname) (''.'' @ toLowerCase (drop 2 entry)))))"

definition gateAsSpecified :: "url_parser \<Rightarrow> string \<Rightarrow> string list \<Rightarrow> bool" where
  "gateAsSpecified hostnameOf url allowedDomains =
     (allowedDomains = [] \<or>
      (case hostnameOf url of
         None \<Rightarrow> False
       | Some h \<Rightarrow> list_ex (entryPermits h) allowedDomains))"

text \<open>
  What one allowlist entry admits once the gate has put it in lower case and trimmed it:
  the host name equal to it, or, for an entry \<^verbatim>\<open>*.<domain>\<close>, the domain itself and every
  host name ending in \<^verbatim>\<open>.<domain>\<close>.
\<close>

definition entryAdmits :: "string \<Rightarrow> string \<Rightarrow> bool" where
  "entryAdmits hostname e \<longleftrightarrow>
     hostname = e \<or>
     (\<exists>domain. e = ''*.'' @ domain \<and> (hostname = domain \<or> (\<exists>sub. hostname = sub @ ''.'' @ domain)))"

section \<open>Selector priority (lib/selector-engine.ts)\<close>

text \<open>\<^verbatim>\<open>SelectorSet\<close> of lib/step-types.ts; \<open>text_sel\<close> is its field \<^verbatim>\<open>text\<close>.\<close>

record SelectorSet =
  testId :: "string option"
  aria :: "string option"
  css :: "string option"
  text_sel :: "string option"
  xpath :: "string option"
  nthMatch :: "nat option"

text \<open>
  \<^verbatim>\<open>if (selectors.testId) result.push(selectors.testId);
  if (selectors.aria) result.push(selectors.aria);
  if (selectors.text) result.push(`text=${selectors.text}`);
  if (selectors.css) result.push(selectors.css);
  if (selectors.xpath) result.push(`xpath=${selectors.xpath}`);\<close>
\<close>

definition prioritizedSelectors :: "SelectorSet \<Rightarrow> string list" where
  "prioritizedSelectors selectors =
     (let result = [];
          result = (if truthy (testId selectors) then result @ [the (testId selectors)] else result);
          result = (if truthy (aria selectors) then result @ [the (aria selectors)] else result);
          result = (if truthy (text_sel selectors) then result @ [''text='' @ the (text_sel selectors)] else result);
          result = (if truthy (css selectors) then result @ [the (css selectors)] else result);
          result = (if truthy (xpath selectors) then result @ [''xpath='' @ the (xpath selectors)] else result)
      in result)"

definition bestSelector :: "SelectorSet \<Rightarrow> string" where
  "bestSelector selectors =
     (case prioritizedSelectors selectors of [] \<Rightarrow> ''body'' | s # _ \<Rightarrow> s)"

section \<open>Flow versions and rollback (lib/flow-versioning.ts)\<close>

text \<open>
  \<^verbatim>\<open>FlowVersion\<close> of lib/step-types.ts. \<open>savedAt\<close> is an ISO date string in the source and is
  only ever read through \<^verbatim>\<open>new Date(v.savedAt).getTime()\<close>; the field holds that instant, in
  milliseconds. \<open>successRate\<close> and \<open>runCount\<close> are optional (\<open>None\<close> is \<^verbatim>\<open>undefined\<close>).
\<close>

record FlowVersion =
  version :: nat
  savedAt :: real
  scriptFile :: string
  successRate :: "real option"
  runCount :: "nat option"

text \<open>
  A flow directory, as far as versioning reads and writes it: the script files by name
  (\<open>None\<close> when \<^verbatim>\<open>existsSync\<close> is false) and the array stored in \<^verbatim>\<open>versions.json\<close>, which
  \<^verbatim>\<open>loadVersionHistory\<close> reads as \<open>[]\<close> when the file is missing or unreadable.
\<close>

record flow_dir =
  files :: "string \<Rightarrow> string option"
  versions :: "FlowVersion list"

text \<open>
  The success rate is a JavaScript number, a double: every product and quotient of
  \<^verbatim>\<open>recordRunResult\<close> is rounded to the nearest double, a tie going to the even
  significand. \<open>fl x\<close> is the double nearest to the real \<open>x\<close>: with \<open>e\<close> the exponent that brings
  \<open>\<bar>x\<bar>\<close> into \<open>[2^52, 2^53)\<close>, it is \<open>x / 2^e\<close> rounded to an integer and scaled back. The
  range of the exponent is not bounded here (no overflow and no subnormal numbers), which
  is exact for the rates and counts of a history. Run counts are kept as natural numbers:
  they are exact as doubles below \<open>2^53\<close>.
\<close>

definition roundEven :: "real \<Rightarrow> int" where
  "roundEven y =
     (let f = \<lfloor>y\<rfloor>; d = y - of_int f
      in if d < 1 / 2 then f else if 1 / 2 < d then f + 1 else if even f then f else f + 1)"

definition fl :: "real \<Rightarrow> real" where
  "fl x =
     (if x = 0 then 0
      else (let e = \<lfloor>log 2 \<bar>x\<bar>\<rfloor> - 52
            in of_int (roundEven (x / 2 powr of_int e)) * 2 powr of_int e))"

text \<open>\<^verbatim>\<open>Math.round\<close>: the nearest integer, a tie going up.\<close>

definition Math_round :: "real \<Rightarrow> int" where
  "Math_round x = \<lfloor>x + 1 / 2\<rfloor>"

text \<open>
  \<^verbatim>\<open>const latest = history[history.length - 1];
  const runs = (latest.runCount ?? 0) + 1;
  const prevSuccesses = Math.round((latest.successRate ?? 0) * (runs - 1));
  const newSuccesses = prevSuccesses + (success ? 1 : 0);
  latest.runCount = runs;
  latest.successRate = newSuccesses / runs;\<close>
\<close>

definition updateLatest :: "FlowVersion \<Rightarrow> bool \<Rightarrow> FlowVersion" where
  "updateLatest latest success =
     (let runs = (case runCount latest of None \<Rightarrow> 0 | Some n \<Rightarrow> n) + 1;
          prevSuccesses = Math_round (fl ((case successRate latest of None \<Rightarrow> 0 | Some r \<Rightarrow> r) * real (runs - 1)));
          newSuccesses = prevSuccesses + (if success then 1 else 0)
      in latest\<lparr>runCount := Some runs, successRate := Some (fl (real_of_int newSuccesses / real runs))\<rparr>)"

definition recordRunResult :: "flow_dir \<Rightarrow> bool \<Rightarrow> flow_dir" where
  "recordRunResult flowDir success =
     (let history = versions flowDir in
      if length history = 0 then flowDir
      else flowDir\<lparr>versions := butlast history @ [updateLatest (last history) success]\<rparr>)"

text \<open>
  The running average as the specification words it,
  \<^verbatim>\<open>newRate = (oldRate * oldRunCount + (success ? 1 : 0)) / (oldRunCount + 1)\<close>, evaluated in
  doubles as written.
\<close>

definition runningAverage :: "real \<Rightarrow> nat \<Rightarrow> bool \<Rightarrow> real" where
  "runningAverage oldRate oldRunCount success =
     fl (fl (fl (oldRate * real oldRunCount) + (if success then 1 else 0)) / real (oldRunCount + 1))"

text \<open>
  A flow directory whose only version has just been archived and has not run yet, and one
  whose only version has succeeded in one run of two.
\<close>

definition freshDir :: flow_dir where
  "freshDir =
     \<lparr>files = [''script.ts'' \<mapsto> ''current'', ''script.v1.ts'' \<mapsto> ''A''],
      versions = [\<lparr>version = 1, savedAt = 0, scriptFile = ''script.v1.ts'', successRate = None,
                   runCount = Some 0\<rparr>]\<rparr>"

definition evenDir :: flow_dir where
  "evenDir =
     \<lparr>files = [''script.ts'' \<mapsto> ''current'', ''script.v1.ts'' \<mapsto> ''A''],
      versions = [\<lparr>version = 1, savedAt = 0, scriptFile = ''script.v1.ts'', successRate = Some (1 / 2),
                   runCount = Some 2\<rparr>]\<rparr>"

text \<open>
  \<^verbatim>\<open>archiveCurrentScript\<close>: with no \<^verbatim>\<open>script.ts\<close> it returns 1 and writes nothing; otherwise it
  copies \<^verbatim>\<open>script.ts\<close> to \<^verbatim>\<open>script.v<n>.ts\<close>, \<open>n\<close> being
  \<^verbatim>\<open>(history[history.length - 1]?.version ?? 0) + 1\<close>, and appends the entry. \<open>now\<close> is the
  clock read by \<^verbatim>\<open>new Date()\<close>.
\<close>

definition archiveName :: "nat \<Rightarrow> string" where
  "archiveName n = ''script.v'' @ decimal n @ ''.ts''"

definition nextVersionOf :: "FlowVersion list \<Rightarrow> nat" where
  "nextVersionOf history = (if history = [] then 0 else version (last history)) + 1"

definition archiveCurrentScript :: "real \<Rightarrow> flow_dir \<Rightarrow> nat \<times> flow_dir" where
  "archiveCurrentScript now flowDir =
     (case files flowDir ''script.ts'' of
        None \<Rightarrow> (1, flowDir)
      | Some current \<Rightarrow>
          (let history = versions flowDir;
               nextVersion = nextVersionOf history;
               archiveFile = archiveName nextVersion
           in (nextVersion + 1,
               \<lparr>files = (files flowDir)(archiveFile \<mapsto> current),
                versions = history @
                  [\<lparr>version = nextVersion, savedAt = now, scriptFile = archiveFile,
                    successRate = None, runCount = Some 0\<rparr>]\<rparr>)))"

text \<open>
  The score of the time-weighted revision of \<^verbatim>\<open>rollback\<close>:
  \<^verbatim>\<open>const successRate = v.successRate ?? 0;
  const ageMs = now - new Date(v.savedAt).getTime();
  const maxAgeMs = 30 * 24 * 60 * 60 * 1000; // 30 days
  const recency = Math.max(0, 1 - ageMs / maxAgeMs);
  const score = 0.7 * successRate + 0.3 * recency;\<close>
\<close>

definition maxAgeMs :: real where
  "maxAgeMs = 30 * 24 * 60 * 60 * 1000"

definition recency :: "real \<Rightarrow> FlowVersion \<Rightarrow> real" where
  "recency now v = max 0 (1 - (now - savedAt v) / maxAgeMs)"

definition score :: "real \<Rightarrow> FlowVersion \<Rightarrow> real" where
  "score now v = 0.7 * (case successRate v of None \<Rightarrow> 0 | Some r \<Rightarrow> r) + 0.3 * recency now v"

text \<open>
  \<^verbatim>\<open>scored.sort((a, b) => b.score - a.score); const target = scored[0].v;\<close>
  The sort is stable and descending in the score: versions of equal score keep the order
  of the history.
\<close>

definition rollbackTarget :: "real \<Rightarrow> FlowVersion list \<Rightarrow> FlowVersion" where
  "rollbackTarget now history =
     fst (hd (sort_key (\<lambda>s. - snd s) (map (\<lambda>v. (v, score now v)) history)))"

definition rollback :: "real \<Rightarrow> flow_dir \<Rightarrow> bool \<times> flow_dir" where
  "rollback now flowDir =
     (let history = versions flowDir in
      if length history = 0 then (False, flowDir)
      else
        (let target = rollbackTarget now history;
             archiveFile = scriptFile target
         in if files flowDir archiveFile = None then (False, flowDir)
            else
              (let archived = snd (archiveCurrentScript now flowDir)
               in (True, archived\<lparr>files := (files archived)(''script.ts'' := files archived archiveFile)\<rparr>))))"

text \<open>
  A history as \<^verbatim>\<open>archiveCurrentScript\<close> writes it: every entry names the archive file of
  its own version number, and no entry has a higher number than the last.
\<close>

definition historyWritten :: "FlowVersion list \<Rightarrow> bool" where
  "historyWritten history \<longleftrightarrow>
     (\<forall>v\<in>set history. scriptFile v = archiveName (version v) \<and> version v < nextVersionOf history)"

text \<open>
  A flow directory with two archived versions, written when \<open>now\<close> is day 40: version 1 saved
  on day 0 with success rate 0.9, version 2 saved on day 39 with success rate 0.6.
\<close>

definition rollbackExample :: flow_dir where
  "rollbackExample = \<lparr>files = [''script.ts'' \<mapsto> ''current'', ''script.v1.ts'' \<mapsto> ''A'', ''script.v2.ts'' \<mapsto> ''B''],
          versions =
            [\<lparr>version = 1, savedAt = 0, scriptFile = ''script.v1.ts'', successRate = Some 0.9, runCount = Some 10\<rparr>,
             \<lparr>version = 2, savedAt = 39 * 86400000, scriptFile = ''script.v2.ts'', successRate = Some 0.6, runCount = Some 10\<rparr>]\<rparr>"

text \<open>
  The revision of \<^verbatim>\<open>rollback\<close> in lib/flow-versioning.ts, the one the command line imports,
  orders the versions by success rate alone, the higher version number winning a tie:
  \<^verbatim>\<open>const sorted = [...history].sort((a, b) => {
    const aRate = a.successRate ?? 0;
    const bRate = b.successRate ?? 0;
    return bRate - aRate || b.version - a.version;
  });
  const target = sorted[0];\<close>
  The rest of the function is the same in both revisions.
\<close>

definition rollbackTargetByRate :: "FlowVersion list \<Rightarrow> FlowVersion" where
  "rollbackTargetByRate history =
     hd (sort_key (\<lambda>v. (- (case successRate v of None \<Rightarrow> 0 | Some r \<Rightarrow> r), - int (version v))) history)"

definition rollbackByRate :: "real \<Rightarrow> flow_dir \<Rightarrow> bool \<times> flow_dir" where
  "rollbackByRate now flowDir =
     (let history = versions flowDir in
      if length history = 0 then (False, flowDir)
      else
        (let target = rollbackTargetByRate history;
             archiveFile = scriptFile target
         in if files flowDir archiveFile = None then (False, flowDir)
            else
              (let archived = snd (archiveCurrentScript now flowDir)
               in (True, archived\<lparr>files := (files archived)(''script.ts'' := files archived archiveFile)\<rparr>))))"

section \<open>The browser as the executor sees it\<close>

text \<open>
  Every effect of the executor is a call to the browser (Playwright) or to another
  collaborator outside the engine. A \<open>call\<close> is one such call. A locator is the frame it is
  scoped to (\<open>None\<close> at the top level of the page) and a selector.
  \<^item> \<open>WaitForVisible\<close>: \<^verbatim>\<open>locator.waitFor({ state: 'visible', timeout })\<close> on the first match
    of a selector, and \<^verbatim>\<open>page.waitForSelector\<close> with the same options;
  \<^item> \<open>IsVisible\<close>: \<^verbatim>\<open>frame.locator(sel).first().isVisible({ timeout })\<close>;
  \<^item> \<open>MouseWheel v\<close>: \<^verbatim>\<open>page.mouse.wheel(0, parseInt(v))\<close>;
  \<^item> \<open>ImportScript dir path\<close>: the dynamic import of a script step, \<open>CallDefault\<close> and
    \<open>CallRun\<close> the call of its entry point;
  \<^item> \<open>PrepareDirs\<close>: the directories made before the run; \<open>OpenSession\<close>: everything between
    the dry-run return and the step loop (pre-flight checks, launching or attaching to the
    browser, cookie injection, start of tracing, the page);
  \<^item> \<open>SaveCookies\<close>: \<^verbatim>\<open>context.cookies()\<close> and \<^verbatim>\<open>saveCookies\<close>; \<open>SaveRunLog\<close> and
    \<open>RecordRun\<close>: \<^verbatim>\<open>logger.save\<close> and \<^verbatim>\<open>recordRunResult\<close> on the files of the flow.
\<close>

type_synonym locator = "string option \<times> string"

datatype call =
    Sleep real
  | WaitForVisible "string option" string nat
  | IsVisible string string nat
  | Goto string
  | LocClick locator
  | LocFill locator string
  | LocSelectOption locator string
  | LocCheck locator
  | LocSetInputFiles locator string
  | KeyboardPress string
  | MouseWheel string
  | WaitForPage
  | WaitForURL string
  | WaitForLoadState
  | ImportScript string string
  | CallDefault string
  | CallRun string
  | CaptureScreenshot string
  | PageUrl
  | BodyText
  | RunAuthFlow string string
  | PrepareDirs
  | OpenSession
  | SaveCookies
  | TracingStop
  | ContextClose
  | SaveRunLog
  | RecordRun bool

text \<open>
  What a call answers: it completes, it throws an error (given by its message), or it
  returns a truth value, a string, or a module (whether it exports a default function,
  whether it exports \<^verbatim>\<open>run\<close>).
\<close>

datatype reply = Done | Failed string | Flag bool | Str string | Exports bool bool

text \<open>
  The browser answers a call in the light of all the calls made before it, oldest first.
  The history of calls is the state the executor threads through a run.
\<close>

type_synonym browser = "call list \<Rightarrow> call \<Rightarrow> reply"

definition perform :: "browser \<Rightarrow> call \<Rightarrow> call list \<Rightarrow> reply \<times> call list" where
  "perform br c hist = (br hist c, hist @ [c])"

text \<open>An awaited call whose value is not used: \<open>Inl\<close> is the message of the error thrown.\<close>

definition await :: "browser \<Rightarrow> call \<Rightarrow> call list \<Rightarrow> (string + unit) \<times> call list" where
  "await br c hist = (case br hist c of Failed m \<Rightarrow> Inl m | _ \<Rightarrow> Inr (), hist @ [c])"

section \<open>Element resolution (lib/retry.ts, bin/execute.ts)\<close>

text \<open>
  The inner loop of \<^verbatim>\<open>resilientLocator\<close>:
  \<^verbatim>\<open>for (const selector of ordered) {
    try {
      const locator = page.locator(selector).first();
      await locator.waitFor({ state: 'visible', timeout: 5000 });
      return locator;
    } catch (_err) { /* try next selector */ }
  }\<close>
\<close>

fun resilientLocator_scan :: "browser \<Rightarrow> string list \<Rightarrow> call list \<Rightarrow> string option \<times> call list" where
  "resilientLocator_scan br [] hist = (None, hist)"
| "resilientLocator_scan br (selector # rest) hist =
     (case br hist (WaitForVisible None selector 5000) of
        Failed _ \<Rightarrow> resilientLocator_scan br rest (hist @ [WaitForVisible None selector 5000])
      | _ \<Rightarrow> (Some selector, hist @ [WaitForVisible None selector 5000]))"

text \<open>
  The outer loop \<^verbatim>\<open>for (let attempt = 0; attempt <= config.maxRetries; attempt++)\<close>, which
  sleeps between rounds and ends in \<^verbatim>\<open>throw lastError\<close>.
\<close>

function resilientLocator_loop ::
  "browser \<Rightarrow> string list \<Rightarrow> RetryConfig \<Rightarrow> nat \<Rightarrow> string \<Rightarrow> call list \<Rightarrow> (string + locator) \<times> call list"
where
  "resilientLocator_loop br ordered config attempt lastError hist =
     (if attempt \<le> maxRetries config then
        (case resilientLocator_scan br ordered hist of
           (Some selector, hist') \<Rightarrow> (Inr (None, selector), hist')
         | (None, hist') \<Rightarrow>
             (let lastError' = ''No selector matched for step. Tried: '' @ join '', '' ordered in
              if attempt < maxRetries config then
                resilientLocator_loop br ordered config (Suc attempt) lastError'
                  (hist' @ [Sleep (calcBackoff attempt config)])
              else resilientLocator_loop br ordered config (Suc attempt) lastError' hist'))
      else (Inl lastError, hist))"
  by pat_completeness auto
termination
  by (relation "measure (\<lambda>(br, ordered, config, attempt, lastError, hist).
        Suc (maxRetries config) - attempt)") auto

declare resilientLocator_loop.simps [simp del]

definition resilientLocator ::
  "browser \<Rightarrow> SelectorSet \<Rightarrow> RetryConfig \<Rightarrow> call list \<Rightarrow> (string + locator) \<times> call list"
where
  "resilientLocator br selectors config hist =
     resilientLocator_loop br (prioritizedSelectors selectors) config 0 ''No selectors available'' hist"

text \<open>
  The calls of rounds \<open>from, ..., to - 1\<close> of \<^verbatim>\<open>resilientLocator\<close> when every wait of these
  rounds fails: each round waits for every candidate in order, and is followed by a backoff
  sleep unless it is the last round the retry policy allows.
\<close>

definition retryRounds :: "RetryConfig \<Rightarrow> string list \<Rightarrow> nat \<Rightarrow> nat \<Rightarrow> call list" where
  "retryRounds config ordered from to =
     concat (map (\<lambda>attempt. map (\<lambda>p. WaitForVisible None p 5000) ordered @
                    (if attempt < maxRetries config then [Sleep (calcBackoff attempt config)] else []))
               [from..<to])"

text \<open>The number of sleeps in a history of calls.\<close>

definition backoffs :: "call list \<Rightarrow> nat" where
  "backoffs hist = length (filter (\<lambda>c. case c of Sleep d \<Rightarrow> True | _ \<Rightarrow> False) hist)"

text \<open>
  The loop of \<^verbatim>\<open>resolveLocator\<close> inside a frame:
  \<^verbatim>\<open>for (const sel of selectorList) {
    try {
      const loc = frame.locator(sel).first();
      if (await loc.isVisible({ timeout: 3000 }).catch(() => false)) return loc;
    } catch { continue; }
  }\<close>
\<close>

fun resolveLocator_scan :: "browser \<Rightarrow> string \<Rightarrow> string list \<Rightarrow> call list \<Rightarrow> string option \<times> call list" where
  "resolveLocator_scan br frame [] hist = (None, hist)"
| "resolveLocator_scan br frame (sel # rest) hist =
     (case br hist (IsVisible frame sel 3000) of
        Flag True \<Rightarrow> (Some sel, hist @ [IsVisible frame sel 3000])
      | _ \<Rightarrow> resolveLocator_scan br frame rest (hist @ [IsVisible frame sel 3000]))"

text \<open>
  \<^verbatim>\<open>resolveLocator\<close> of the frame-aware executor: inside an active frame the first visible
  candidate, else the first candidate, else an error; with no active frame,
  \<^verbatim>\<open>resilientLocator(page, selectors)\<close>.
\<close>

definition resolveLocator ::
  "browser \<Rightarrow> SelectorSet \<Rightarrow> string option \<Rightarrow> call list \<Rightarrow> (string + locator) \<times> call list"
where
  "resolveLocator br selectors activeFrameSelector hist =
     (if truthy activeFrameSelector then
        (let frame = the activeFrameSelector;
             selectorList = prioritizedSelectors selectors
         in case resolveLocator_scan br frame selectorList hist of
              (Some sel, hist') \<Rightarrow> (Inr (Some frame, sel), hist')
            | (None, hist') \<Rightarrow>
                (if length selectorList > 0 then (Inr (Some frame, hd selectorList), hist')
                 else (Inl (''No selector matched in frame '' @ [CHR 0x22] @ frame @ [CHR 0x22] @ '' for step''),
                       hist')))
      else resilientLocator br selectors DEFAULT_RETRY_CONFIG hist)"

section \<open>The step dispatcher (bin/execute.ts, frame-aware revision)\<close>

text \<open>
  \<^verbatim>\<open>RecordedStep\<close>, with the fields the executor reads. \<open>step_type\<close> and \<open>step_value\<close> are the
  fields \<^verbatim>\<open>type\<close> and \<^verbatim>\<open>value\<close>; the type is the string found in the flow document, which
  need not be one of the known kinds.
\<close>

record RecordedStep =
  index :: nat
  step_type :: string
  selectors :: SelectorSet
  step_value :: "string option"
  key :: "string option"
  url :: "string option"
  frameSelector :: "string option"
  pageUrl :: string
  scriptPath :: "string option"

text \<open>The value of an optional string, or a default: \<^verbatim>\<open>a ?? b\<close>.\<close>

definition orElse :: "string option \<Rightarrow> string \<Rightarrow> string" where
  "orElse v d = (case v of None \<Rightarrow> d | Some s \<Rightarrow> s)"

text \<open>A handler ends in \<^verbatim>\<open>return activeFrameSelector\<close> unless a call has thrown.\<close>

definition returning ::
  "string option \<Rightarrow> (string + unit) \<times> call list \<Rightarrow> (string + string option) \<times> call list"
where
  "returning activeFrameSelector r =
     (case r of (Inl m, hist) \<Rightarrow> (Inl m, hist) | (Inr _, hist) \<Rightarrow> (Inr activeFrameSelector, hist))"

text \<open>
  \<^verbatim>\<open>const loc = await resolveLocator(page, step.selectors, activeFrameSelector);
  await loc.<action>(...);\<close>
\<close>

definition onLocator ::
  "browser \<Rightarrow> SelectorSet \<Rightarrow> string option \<Rightarrow> (locator \<Rightarrow> call) \<Rightarrow> call list \<Rightarrow> (string + unit) \<times> call list"
where
  "onLocator br sels activeFrameSelector action hist =
     (case resolveLocator br sels activeFrameSelector hist of
        (Inl m, hist') \<Rightarrow> (Inl m, hist')
      | (Inr loc, hist') \<Rightarrow> await br (action loc) hist')"

definition knownTypes :: string where
  "knownTypes = ''navigate, click, type, select, check, keypress, scroll, frame-switch, tab-switch, wait, upload, script''"

text \<open>
  \<^verbatim>\<open>executeStep\<close>. \<open>inject\<close> is \<^verbatim>\<open>injectParams(\<cdot>, params)\<close> for the parameters of the run. The
  result is the active frame selector to carry on with, or the message of the error
  thrown, and the history of calls.
\<close>

definition executeStep ::
  "browser \<Rightarrow> RecordedStep \<Rightarrow> (string \<Rightarrow> string) \<Rightarrow> string \<Rightarrow> string option \<Rightarrow> call list
     \<Rightarrow> (string + string option) \<times> call list"
where
  "executeStep br step inject flowDir activeFrameSelector hist =
     (if step_type step = ''navigate'' then
        returning activeFrameSelector (await br (Goto (inject (orElse (url step) (pageUrl step)))) hist)
      else if step_type step = ''click'' then
        returning activeFrameSelector (onLocator br (selectors step) activeFrameSelector LocClick hist)
      else if step_type step = ''type'' then
        returning activeFrameSelector
          (onLocator br (selectors step) activeFrameSelector
             (\<lambda>loc. LocFill loc (inject (orElse (step_value step) []))) hist)
      else if step_type step = ''select'' then
        returning activeFrameSelector
          (onLocator br (selectors step) activeFrameSelector
             (\<lambda>loc. LocSelectOption loc (inject (orElse (step_value step) []))) hist)
      else if step_type step = ''check'' then
        returning activeFrameSelector (onLocator br (selectors step) activeFrameSelector LocCheck hist)
      else if step_type step = ''keypress'' then
        returning activeFrameSelector (await br (KeyboardPress (orElse (key step) ''Enter'')) hist)
      else if step_type step = ''scroll'' then
        returning activeFrameSelector (await br (MouseWheel (orElse (step_value step) ''300'')) hist)
      else if step_type step = ''frame-switch'' then
        (Inr (case frameSelector step of Some f \<Rightarrow> Some f | None \<Rightarrow> css (selectors step)), hist)
      else if step_type step = ''tab-switch'' then
        returning activeFrameSelector (await br WaitForPage hist)
      else if step_type step = ''wait'' then
        (let selectorList = prioritizedSelectors (selectors step) in
         if length selectorList > 0 \<and> hd selectorList \<noteq> ''body'' then
           (if truthy activeFrameSelector then
              returning activeFrameSelector
                (await br (WaitForVisible (Some (the activeFrameSelector)) (hd selectorList) 15000) hist)
            else
              returning activeFrameSelector (await br (WaitForVisible None (hd selectorList) 15000) hist))
         else if truthy (url step) then
           returning activeFrameSelector (await br (WaitForURL (the (url step))) hist)
         else returning activeFrameSelector (await br WaitForLoadState hist))
      else if step_type step = ''upload'' then
        returning activeFrameSelector
          (onLocator br (selectors step) activeFrameSelector
             (\<lambda>loc. LocSetInputFiles loc (inject (orElse (step_value step) []))) hist)
      else if step_type step = ''script'' then
        (let path = (case scriptPath step of Some p \<Rightarrow> Some p | None \<Rightarrow> step_value step) in
         if \<not> truthy path then
           (Inl (''Script step '' @ decimal (index step) @ '' has no scriptPath or value''), hist)
         else
           (case perform br (ImportScript flowDir (the path)) hist of
              (Failed m, hist') \<Rightarrow> (Inl m, hist')
            | (Exports True r, hist') \<Rightarrow> returning activeFrameSelector (await br (CallDefault (the path)) hist')
            | (Exports False True, hist') \<Rightarrow> returning activeFrameSelector (await br (CallRun (the path)) hist')
            | (_, hist') \<Rightarrow>
                (Inl (''Script at '' @ the path @ '' must export a default function or run()''), hist')))
      else
        (Inl (''Unsupported step type: '' @ [CHR 0x22] @ step_type step @ [CHR 0x22] @ '' at step '' @
              decimal (index step) @ ''. Known types: '' @ knownTypes), hist))"

section \<open>The run loop (bin/execute.ts)\<close>

text \<open>
  \<^verbatim>\<open>StepError\<close> and \<^verbatim>\<open>RunResult\<close> of lib/step-types.ts; \<open>error_type\<close> and \<open>error_url\<close> are the
  fields \<^verbatim>\<open>type\<close> and \<^verbatim>\<open>url\<close> of the error. The duration of the run, a difference of two
  clock readings, is left out of the result, and so is what the run prints.
\<close>

record StepError =
  step :: nat
  error_type :: string
  message :: string
  screenshot :: string
  error_url :: string
  retriesAttempted :: nat

record RunResult =
  success :: bool
  confirmation :: string
  flow :: string
  steps_completed :: nat
  steps_total :: nat
  screenshots :: "string list"
  error :: "StepError option"

text \<open>
  The flow document, with the metadata the run reads (\<open>meta_url\<close> is \<^verbatim>\<open>metadata.url\<close>), and
  the options of a run that decide its course.
\<close>

record FlowMetadata =
  meta_url :: string
  allowedDomains :: "string list option"

record FlowDocument =
  metadata :: FlowMetadata
  steps :: "RecordedStep list"

record ExecuteOptions =
  name :: string
  dryRun :: bool
  delayBetween :: real

text \<open>
  The variables of \<^verbatim>\<open>execute\<close> that the loop changes: the calls made so far, the
  screenshots, \<^verbatim>\<open>stepsCompleted\<close>, \<^verbatim>\<open>stepError\<close> and \<^verbatim>\<open>activeFrameSelector\<close> (\<open>frameScope\<close>),
  and the error that has been thrown out of the loop, if any.
\<close>

record run_state =
  callLog :: "call list"
  shots :: "string list"
  stepsCompleted :: nat
  stepError :: "StepError option"
  frameScope :: "string option"
  thrown :: "string option"

text \<open>
  \<^verbatim>\<open>isAuthFailure\<close>: the URL of the page, in lower case, contains a login path, or the
  text of the body, in lower case, contains one of four phrases; a failure to read the
  body is \<^verbatim>\<open>false\<close>.
\<close>

definition authPatterns :: "string list" where
  "authPatterns = [''/login'', ''/signin'', ''/sign-in'', ''/auth/login'']"

definition failPatterns :: "string list" where
  "failPatterns = [''session expired'', ''please log in'', ''unauthorized'', ''access denied'']"

definition textOf :: "reply \<Rightarrow> string" where
  "textOf r = (case r of Str s \<Rightarrow> s | _ \<Rightarrow> [])"

definition isAuthFailure :: "browser \<Rightarrow> call list \<Rightarrow> bool \<times> call list" where
  "isAuthFailure br hist =
     (let (r, hist1) = perform br PageUrl hist;
          pageAddress = toLowerCase (textOf r)
      in if list_ex (\<lambda>p. includesStr pageAddress p) authPatterns then (True, hist1)
         else
           (case perform br BodyText hist1 of
              (Failed m, hist2) \<Rightarrow> (False, hist2)
            | (b, hist2) \<Rightarrow> (list_ex (\<lambda>p. includesStr (toLowerCase (textOf b)) p) failPatterns, hist2)))"

text \<open>\<^verbatim>\<open>captureScreenshot(page, screenshotsDir, label).catch(() => '')\<close>\<close>

definition captureScreenshot :: "browser \<Rightarrow> string \<Rightarrow> call list \<Rightarrow> string \<times> call list" where
  "captureScreenshot br label hist =
     (let (r, hist1) = perform br (CaptureScreenshot label) hist in (textOf r, hist1))"

text \<open>
  The gate in front of a step:
  \<^verbatim>\<open>if (step.type === 'navigate' && step.url && flow.metadata.allowedDomains?.length) {
    assertDomainAllowed(step.url, flow.metadata.allowedDomains, name);
  }\<close>
  \<open>Some\<close> is the message of the error it throws.
\<close>

definition gate :: "url_parser \<Rightarrow> ExecuteOptions \<Rightarrow> FlowDocument \<Rightarrow> RecordedStep \<Rightarrow> string option" where
  "gate hostnameOf opts doc s =
     (if step_type s = ''navigate'' \<and> truthy (url s) \<and>
         (case allowedDomains (metadata doc) of None \<Rightarrow> False | Some ds \<Rightarrow> length ds \<noteq> 0)
      then
        (case assertDomainAllowed hostnameOf (the (url s)) (the (allowedDomains (metadata doc))) (name opts) of
           Inl m \<Rightarrow> Some m
         | Inr _ \<Rightarrow> None)
      else None)"

text \<open>
  The \<^verbatim>\<open>catch (err)\<close> block of a step, entered with the message of the error and the state
  at the throw. The truth value tells how the block leaves the loop body: \<open>True\<close> is
  \<^verbatim>\<open>continue\<close>, \<open>False\<close> is \<^verbatim>\<open>break\<close>.
\<close>

definition failWith :: "browser \<Rightarrow> RecordedStep \<Rightarrow> string \<Rightarrow> string \<Rightarrow> nat \<Rightarrow> run_state \<Rightarrow> run_state" where
  "failWith br s msg shot retries st =
     (let (r, hist1) = perform br PageUrl (callLog st)
      in st\<lparr>callLog := hist1,
            stepError := Some \<lparr>step = index s, error_type = step_type s, message = msg,
                                screenshot = shot, error_url = textOf r, retriesAttempted = retries\<rparr>\<rparr>)"

definition onStepFailure ::
  "browser \<Rightarrow> ExecuteOptions \<Rightarrow> FlowDocument \<Rightarrow> (string \<Rightarrow> string) \<Rightarrow> string \<Rightarrow> RecordedStep \<Rightarrow> string
     \<Rightarrow> run_state \<Rightarrow> bool \<times> run_state"
where
  "onStepFailure br opts doc inject flowDir s errMsg st =
     (let (shot, hist2) = captureScreenshot br (''fail_step_'' @ decimal (index s)) (callLog st);
          st2 = st\<lparr>callLog := hist2, shots := (if shot \<noteq> [] then shots st @ [shot] else shots st)\<rparr>;
          (auth, hist3) = isAuthFailure br hist2
      in if auth then
           (case await br (RunAuthFlow (name opts) (meta_url (metadata doc))) hist3 of
              (Inl authErr, hist4) \<Rightarrow> (False, failWith br s authErr shot 1 (st2\<lparr>callLog := hist4\<rparr>))
            | (Inr _, hist4) \<Rightarrow>
                (case executeStep br s inject flowDir (frameScope st2) hist4 of
                   (Inr frame, hist5) \<Rightarrow>
                     (True, st2\<lparr>callLog := hist5, frameScope := frame,
                                stepsCompleted := Suc (stepsCompleted st2)\<rparr>)
                 | (Inl authErr, hist5) \<Rightarrow>
                     (False, failWith br s authErr shot 1 (st2\<lparr>callLog := hist5\<rparr>))))
         else (False, failWith br s errMsg shot 0 (st2\<lparr>callLog := hist3\<rparr>)))"

text \<open>\<^verbatim>\<open>if (delayBetween > 0) { await new Promise((r) => setTimeout(r, delayBetween)); }\<close>\<close>

definition applyDelay :: "ExecuteOptions \<Rightarrow> run_state \<Rightarrow> run_state" where
  "applyDelay opts st =
     (if delayBetween opts > 0 then st\<lparr>callLog := callLog st @ [Sleep (delayBetween opts)]\<rparr> else st)"

text \<open>
  \<^verbatim>\<open>for (const step of flow.steps)\<close>. A throw of the gate leaves the loop with the error
  in \<open>thrown\<close>; the \<^verbatim>\<open>try\<close> around the loop has a \<^verbatim>\<open>finally\<close> and no \<^verbatim>\<open>catch\<close>. The two
  revisions of bin/execute.ts have the same loop, gate and \<^verbatim>\<open>catch\<close> block; the older one
  calls a dispatcher without a frame scope.
\<close>

fun runSteps ::
  "browser \<Rightarrow> url_parser \<Rightarrow> ExecuteOptions \<Rightarrow> FlowDocument \<Rightarrow> (string \<Rightarrow> string) \<Rightarrow> string
     \<Rightarrow> RecordedStep list \<Rightarrow> run_state \<Rightarrow> run_state"
where
  "runSteps br hostnameOf opts doc inject flowDir [] st = st"
| "runSteps br hostnameOf opts doc inject flowDir (s # rest) st =
     (let st0 = applyDelay opts st
      in case gate hostnameOf opts doc s of
           Some m \<Rightarrow> st0\<lparr>thrown := Some m\<rparr>
         | None \<Rightarrow>
             (case executeStep br s inject flowDir (frameScope st0) (callLog st0) of
                (Inr frame, hist1) \<Rightarrow>
                  runSteps br hostnameOf opts doc inject flowDir rest
                    (st0\<lparr>callLog := hist1, frameScope := frame, stepsCompleted := Suc (stepsCompleted st0)\<rparr>)
              | (Inl errMsg, hist1) \<Rightarrow>
                  (case onStepFailure br opts doc inject flowDir s errMsg (st0\<lparr>callLog := hist1\<rparr>) of
                     (True, st1) \<Rightarrow> runSteps br hostnameOf opts doc inject flowDir rest st1
                   | (False, st1) \<Rightarrow> st1)))"

text \<open>
  After the loop, still inside the \<^verbatim>\<open>try\<close>: with no step error, the final screenshot
  and the saving of the cookies, which may throw.
\<close>

definition afterSteps :: "browser \<Rightarrow> run_state \<Rightarrow> run_state" where
  "afterSteps br st =
     (if thrown st = None \<and> stepError st = None then
        (let (shot, hist1) = captureScreenshot br ''final'' (callLog st);
             st1 = st\<lparr>callLog := hist1, shots := (if shot \<noteq> [] then shots st @ [shot] else shots st)\<rparr>
         in case await br SaveCookies hist1 of
              (Inl m, hist2) \<Rightarrow> st1\<lparr>callLog := hist2, thrown := Some m\<rparr>
            | (Inr _, hist2) \<Rightarrow> st1\<lparr>callLog := hist2\<rparr>)
      else st)"

text \<open>
  \<^verbatim>\<open>finally { await context.tracing.stop({ path }).catch(() => {}); await context.close(); }\<close>
  An error thrown by the close takes the place of the one that was pending.
\<close>

definition finallyBlock :: "browser \<Rightarrow> run_state \<Rightarrow> run_state" where
  "finallyBlock br st =
     (let (r, hist1) = perform br TracingStop (callLog st) in
      case await br ContextClose hist1 of
        (Inl m, hist2) \<Rightarrow> st\<lparr>callLog := hist2, thrown := Some m\<rparr>
      | (Inr _, hist2) \<Rightarrow> st\<lparr>callLog := hist2\<rparr>)"

text \<open>How a call of \<^verbatim>\<open>execute\<close> ends: it returns, it throws, or it ends the process.\<close>

datatype 'a completion = Returns 'a | Throws string | Exits nat

definition quoted :: "string \<Rightarrow> string" where
  "quoted s = [CHR 0x22] @ s @ [CHR 0x22]"

definition resultOf :: "ExecuteOptions \<Rightarrow> FlowDocument \<Rightarrow> run_state \<Rightarrow> RunResult" where
  "resultOf opts doc st =
     \<lparr>success = (stepError st = None),
      confirmation =
        (if stepError st = None
         then ''Flow '' @ quoted (name opts) @ '' completed successfully ('' @ decimal (stepsCompleted st) @
              ''/'' @ decimal (length (steps doc)) @ '' steps)''
         else ''Flow '' @ quoted (name opts) @ '' failed at step '' @ decimal (step (the (stepError st)))),
      flow = name opts,
      steps_completed = stepsCompleted st,
      steps_total = length (steps doc),
      screenshots = shots st,
      error = stepError st\<rparr>"

text \<open>
  \<^verbatim>\<open>execute\<close>, run against a browser, with the flow that \<^verbatim>\<open>loadFlow(name)\<close> has found (or
  \<open>None\<close>) and \<open>flowDir\<close> the directory of the flow.
\<close>

definition execute ::
  "browser \<Rightarrow> url_parser \<Rightarrow> (string \<Rightarrow> string) \<Rightarrow> string \<Rightarrow> ExecuteOptions \<Rightarrow> FlowDocument option
     \<Rightarrow> RunResult completion \<times> call list"
where
  "execute br hostnameOf inject flowDir opts loaded =
     (case loaded of
        None \<Rightarrow> (Exits 1, [])
      | Some doc \<Rightarrow>
          (case await br PrepareDirs [] of
             (Inl m, hist0) \<Rightarrow> (Throws m, hist0)
           | (Inr _, hist0) \<Rightarrow>
               if dryRun opts then
                 (Returns \<lparr>success = True,
                    confirmation = ''Dry run for '' @ quoted (name opts) @ '' completed ('' @
                      decimal (length (steps doc)) @ '' steps)'',
                    flow = name opts,
                    steps_completed = length (steps doc),
                    steps_total = length (steps doc),
                    screenshots = [],
                    error = None\<rparr>, hist0)
               else
                 (case await br OpenSession hist0 of
                    (Inl m, hist1) \<Rightarrow> (Throws m, hist1)
                  | (Inr _, hist1) \<Rightarrow>
                      (let st = finallyBlock br (afterSteps br
                             (runSteps br hostnameOf opts doc inject flowDir (steps doc)
                                \<lparr>callLog = hist1, shots = [], stepsCompleted = 0, stepError = None,
                                 frameScope = None, thrown = None\<rparr>))
                       in case thrown st of
                            Some m \<Rightarrow> (Throws m, callLog st)
                          | None \<Rightarrow>
                              (case await br SaveRunLog (callLog st) of
                                 (Inl m, hist2) \<Rightarrow> (Throws m, hist2)
                               | (Inr _, hist2) \<Rightarrow>
                                   (case await br (RecordRun (stepError st = None)) hist2 of
                                      (Inl m, hist3) \<Rightarrow> (Throws m, hist3)
                                    | (Inr _, hist3) \<Rightarrow> (Returns (resultOf opts doc st), hist3)))))))"


text \<open>
  A call that addresses an element does so inside the frame \<open>f\<close>: its locator is scoped to
  the frame, or it is a visibility probe or wait inside the frame. Calls that address no
  element (navigation, keyboard, mouse wheel, sleeps, scripts, screenshots and the rest)
  are not concerned.
\<close>

definition scopedTo :: "string \<Rightarrow> call \<Rightarrow> bool" where
  "scopedTo f c =
     (case c of
        WaitForVisible frame sel t \<Rightarrow> frame = Some f
      | IsVisible frame sel t \<Rightarrow> frame = f
      | LocClick loc \<Rightarrow> fst loc = Some f
      | LocFill loc v \<Rightarrow> fst loc = Some f
      | LocSelectOption loc v \<Rightarrow> fst loc = Some f
      | LocCheck loc \<Rightarrow> fst loc = Some f
      | LocSetInputFiles loc v \<Rightarrow> fst loc = Some f
      | _ \<Rightarrow> True)"

text \<open>The history \<open>hist'\<close> is \<open>hist\<close> and then calls that are all inside the frame \<open>f\<close>.\<close>

definition addsScoped :: "string \<Rightarrow> call list \<Rightarrow> call list \<Rightarrow> bool" where
  "addsScoped f hist hist' \<longleftrightarrow> (\<exists>new. hist' = hist @ new \<and> (\<forall>c\<in>set new. scopedTo f c))"


section \<open>Example selectors, browsers and flows\<close>

definition noSelectors :: SelectorSet where
  "noSelectors = \<lparr>testId = None, aria = None, css = None, text_sel = None, xpath = None, nthMatch = None\<rparr>"

text \<open>A selector set declared with its CSS path before its test id.\<close>

definition submitSelectors :: SelectorSet where
  "submitSelectors = noSelectors\<lparr>css := Some ''button.submit'', testId := Some ''[data-testid=x]''\<rparr>"

text \<open>A page on which no element ever becomes visible.\<close>

definition neverVisible :: browser where
  "neverVisible h c =
     (case c of
        WaitForVisible f s t \<Rightarrow> Failed ''Timeout 5000ms exceeded''
      | IsVisible f s t \<Rightarrow> Flag False
      | _ \<Rightarrow> Done)"

text \<open>A page on which the element with the CSS path is visible and nothing else is.\<close>

definition cssVisible :: browser where
  "cssVisible h c =
     (case c of
        WaitForVisible f s t \<Rightarrow> (if s = ''button.submit'' then Done else Failed ''Timeout 5000ms exceeded'')
      | IsVisible f s t \<Rightarrow> Flag (s = ''button.submit'')
      | _ \<Rightarrow> Done)"

text \<open>A page on which the element with the CSS path appears during the first backoff sleep.\<close>

definition appearsAfterBackoff :: browser where
  "appearsAfterBackoff h c =
     (case c of
        WaitForVisible f s t \<Rightarrow>
          (if s = ''button.submit'' \<and> 0 < backoffs h then Done else Failed ''Timeout 5000ms exceeded'')
      | IsVisible f s t \<Rightarrow> Flag (s = ''button.submit'' \<and> 0 < backoffs h)
      | _ \<Rightarrow> Done)"


definition navigateStep :: "nat \<Rightarrow> string \<Rightarrow> RecordedStep" where
  "navigateStep i u =
     \<lparr>index = i, step_type = ''navigate'', selectors = noSelectors, step_value = None, key = None,
      url = Some u, frameSelector = None, pageUrl = u, scriptPath = None\<rparr>"

definition clickStep :: "nat \<Rightarrow> string \<Rightarrow> RecordedStep" where
  "clickStep i c =
     \<lparr>index = i, step_type = ''click'', selectors = noSelectors\<lparr>css := Some c\<rparr>, step_value = None,
      key = None, url = None, frameSelector = None, pageUrl = ''https://app.example.com/home'',
      scriptPath = None\<rparr>"

definition frameStep :: "nat \<Rightarrow> string \<Rightarrow> RecordedStep" where
  "frameStep i f =
     \<lparr>index = i, step_type = ''frame-switch'', selectors = noSelectors, step_value = None,
      key = None, url = None, frameSelector = Some f, pageUrl = ''https://app.example.com/home'',
      scriptPath = None\<rparr>"

definition myFlow :: ExecuteOptions where
  "myFlow = \<lparr>name = ''my-flow'', dryRun = False, delayBetween = 0\<rparr>"



text \<open>
  A session that has expired: until the login sub-flow has run, a click on \<^verbatim>\<open>#save\<close> fails
  and the page is the login page; afterwards every call completes.
\<close>

definition expiredSession :: browser where
  "expiredSession h c =
     (let loggedIn = (RunAuthFlow ''my-flow'' ''https://app.example.com/login'' \<in> set h) in
      case c of
        LocClick loc \<Rightarrow>
          (if snd loc = ''#save'' \<and> \<not> loggedIn then Failed ''Timeout 30000ms exceeded'' else Done)
      | PageUrl \<Rightarrow>
          Str (if loggedIn then ''https://app.example.com/home'' else ''https://app.example.com/Login?next=home'')
      | CaptureScreenshot l \<Rightarrow> Str (l @ ''.png'')
      | _ \<Rightarrow> Done)"

text \<open>The same session, with a login sub-flow that fails: the page stays logged out.\<close>

definition lockedOut :: browser where
  "lockedOut h c =
     (case c of
        RunAuthFlow f u \<Rightarrow> Failed ''Login failed''
      | _ \<Rightarrow> expiredSession [] c)"

definition threeSteps :: FlowDocument where
  "threeSteps =
     \<lparr>metadata = \<lparr>meta_url = ''https://app.example.com/login'', allowedDomains = Some [''*.example.com'']\<rparr>,
      steps = [navigateStep 1 ''https://app.example.com/home'', clickStep 2 ''#save'', clickStep 3 ''#done'']\<rparr>"


definition initialState :: "call list \<Rightarrow> run_state" where
  "initialState h =
     \<lparr>callLog = h, shots = [], stepsCompleted = 0, stepError = None, frameScope = None, thrown = None\<rparr>"


section \<open>Properties of the retry policy\<close>

subsection \<open>One iteration of the retry loop\<close>

lemma withRetry_loop_done:
  "maxRetries cfg < a \<Longrightarrow>
   withRetry_loop i fn cfg cb a le = \<lparr>outcome = Threw le, calls = 0, consulted = [], slept = []\<rparr>"
  by (subst withRetry_loop.simps) simp

lemma withRetry_loop_value:
  "a \<le> maxRetries cfg \<Longrightarrow> fn a = Inr v \<Longrightarrow>
   withRetry_loop i fn cfg cb a le = \<lparr>outcome = Returned v, calls = 1, consulted = [], slept = []\<rparr>"
  by (subst withRetry_loop.simps) simp

lemma withRetry_loop_last:
  "a = maxRetries cfg \<Longrightarrow> fn a = Inl err \<Longrightarrow>
   withRetry_loop i fn cfg cb a le = \<lparr>outcome = Threw err, calls = 1, consulted = [], slept = []\<rparr>"
  by (subst withRetry_loop.simps) (simp add: withRetry_loop_done attempted_def)

lemma withRetry_loop_abort:
  "a < maxRetries cfg \<Longrightarrow> fn a = Inl err \<Longrightarrow> decide cb i err a = Abort \<Longrightarrow>
   withRetry_loop i fn cfg cb a le =
     \<lparr>outcome = Threw err, calls = 1, consulted = [(a, Abort)], slept = []\<rparr>"
  by (subst withRetry_loop.simps) simp

lemma withRetry_loop_skip:
  "a < maxRetries cfg \<Longrightarrow> fn a = Inl err \<Longrightarrow> decide cb i err a = Skip \<Longrightarrow>
   withRetry_loop i fn cfg cb a le =
     \<lparr>outcome = ReturnedNull, calls = 1, consulted = [(a, Skip)], slept = []\<rparr>"
  by (subst withRetry_loop.simps) simp

lemma withRetry_loop_retry:
  "a < maxRetries cfg \<Longrightarrow> fn a = Inl err \<Longrightarrow> decide cb i err a = Retry \<Longrightarrow>
   withRetry_loop i fn cfg cb a le =
     attempted [(a, Retry)] [calcBackoff a cfg] (withRetry_loop i fn cfg cb (Suc a) err)"
  by (subst withRetry_loop.simps) simp

lemma loop_skip_abort:
  "(k, d) \<in> set (consulted (withRetry_loop i fn cfg cb a le)) \<Longrightarrow> d \<noteq> Retry \<Longrightarrow>
     a \<le> k \<and> calls (withRetry_loop i fn cfg cb a le) = Suc k - a \<and>
     (\<exists>err. fn k = Inl err \<and> d = decide cb i err k \<and>
        outcome (withRetry_loop i fn cfg cb a le) = (if d = Skip then ReturnedNull else Threw err))"
proof (induction "Suc (maxRetries cfg) - a" arbitrary: a le)
  case 0
  then have "maxRetries cfg < a" by simp
  with "0.prems" show ?case by (simp add: withRetry_loop_done)
next
  case (Suc n)
  then have le: "a \<le> maxRetries cfg" by simp
  show ?case
  proof (cases "fn a")
    case (Inr v)
    with le Suc.prems show ?thesis by (simp add: withRetry_loop_value)
  next
    case (Inl err)
    show ?thesis
    proof (cases "a = maxRetries cfg")
      case True
      with Inl Suc.prems show ?thesis by (simp add: withRetry_loop_last)
    next
      case False
      with le have lt: "a < maxRetries cfg" by simp
      show ?thesis
      proof (cases "decide cb i err a")
        case Abort
        with lt Inl Suc.prems show ?thesis by (auto simp: withRetry_loop_abort)
      next
        case Skip
        with lt Inl Suc.prems show ?thesis by (auto simp: withRetry_loop_skip)
      next
        case Retry
        have step: "withRetry_loop i fn cfg cb a le =
            attempted [(a, Retry)] [calcBackoff a cfg] (withRetry_loop i fn cfg cb (Suc a) err)"
          using lt Inl Retry by (rule withRetry_loop_retry)
        from Suc.prems have mem: "(k, d) \<in> set (consulted (withRetry_loop i fn cfg cb (Suc a) err))"
          by (auto simp: step attempted_def)
        have "n = Suc (maxRetries cfg) - Suc a" using Suc.hyps(2) by simp
        from Suc.hyps(1) [OF this mem Suc.prems(2)] show ?thesis
          by (auto simp: step attempted_def)
      qed
    qed
  qed
qed



text \<open>
  Claim C5. The backoff delay for attempt \<open>n\<close> (counted from 0) is
  \<open>min (initial * multiplier ^ n) ceiling\<close>; attempt 0 uses the initial value unscaled
  (it is the initial value itself whenever that does not exceed the ceiling); and for
  initial 500, multiplier 2, ceiling 8000 the delays of attempts 0, 1, 2, 3 and 10 are
  500, 1000, 2000, 4000 and 8000.
\<close>

theorem calcBackoff_formula:
  "calcBackoff n cfg = min (backoffMs cfg * backoffMultiplier cfg ^ n) (maxBackoffMs cfg) \<and>
   (backoffMs cfg \<le> maxBackoffMs cfg \<longrightarrow> calcBackoff 0 cfg = backoffMs cfg) \<and>
   map (\<lambda>k. calcBackoff k \<lparr>maxRetries = m, backoffMs = 500, backoffMultiplier = 2, maxBackoffMs = 8000\<rparr>)
     [0, 1, 2, 3, 10] = [500, 1000, 2000, 4000, 8000]"
  by (simp add: calcBackoff_def)

theorem calcBackoff_formula_witness:
  "backoffMs DEFAULT_RETRY_CONFIG \<le> maxBackoffMs DEFAULT_RETRY_CONFIG \<and>
   calcBackoff 0 DEFAULT_RETRY_CONFIG = 500 \<and>
   calcBackoff 4 DEFAULT_RETRY_CONFIG = min (500 * 2 ^ 4) 8000"
  using calcBackoff_formula [of 4 DEFAULT_RETRY_CONFIG]
  by (simp add: DEFAULT_RETRY_CONFIG_def)



text \<open>
  With no retry left the callback is not asked: a run with \<open>maxRetries = 0\<close> invokes the
  operation once and throws its error, whatever the callback would answer.
\<close>

lemma withRetry_no_retries_left:
  "maxRetries cfg = 0 \<Longrightarrow> fn 0 = Inl err \<Longrightarrow>
   withRetry i fn cfg cb = \<lparr>outcome = Threw err, calls = 1, consulted = [], slept = []\<rparr>"
  by (simp add: withRetry_def withRetry_loop_last)



section \<open>Properties of the domain gate\<close>

lemma startsWith_iff: "startsWith s p \<longleftrightarrow> (\<exists>t. s = p @ t)"
  unfolding startsWith_def
  by (metis append_eq_conv_conj append_take_drop_id)

lemma endsWith_iff: "endsWith s p \<longleftrightarrow> (\<exists>t. s = t @ p)"
proof
  assume "endsWith s p"
  then have "s = take (length s - length p) s @ p"
    unfolding endsWith_def by (metis append_take_drop_id)
  then show "\<exists>t. s = t @ p" ..
next
  assume "\<exists>t. s = t @ p"
  then show "endsWith s p" by (auto simp: endsWith_def)
qed

lemma matchesAllowlist_iff:
  "matchesAllowlist hostname allowed \<longleftrightarrow>
     (\<exists>entry\<in>set allowed. entryAdmits hostname (trim (toLowerCase entry)))"
proof (induction allowed)
  case Nil
  show ?case by simp
next
  case (Cons pattern rest)
  define e where "e = trim (toLowerCase pattern)"
  have one: "(if startsWith e ''*.'' then hostname = drop 2 e \<or> endsWith hostname (''.'' @ drop 2 e)
             else hostname = e) \<longleftrightarrow> entryAdmits hostname e"
  proof (cases "startsWith e ''*.''")
    case True
    then obtain d where d: "e = ''*.'' @ d" by (auto simp: startsWith_iff)
    have "hostname = e \<Longrightarrow> \<exists>sub. hostname = sub @ ''.'' @ d"
      using d by (intro exI [of _ "''*''"]) simp
    with True d show ?thesis
      by (auto simp: entryAdmits_def endsWith_iff)
  next
    case False
    then have "\<And>d. e \<noteq> ''*.'' @ d" by (auto simp: startsWith_iff)
    with False show ?thesis by (auto simp: entryAdmits_def)
  qed
  have step: "matchesAllowlist hostname (pattern # rest) \<longleftrightarrow>
      (if startsWith e ''*.'' then hostname = drop 2 e \<or> endsWith hostname (''.'' @ drop 2 e)
       else hostname = e) \<or> matchesAllowlist hostname rest"
    by (simp add: Let_def e_def)
  show ?case
    unfolding step one Cons.IH by (simp add: e_def)
qed

lemma securityMessage_names:
  "\<exists>a b c. securityMessage u allowed fname = a @ u @ b @ fname @ c"
  unfolding securityMessage_def
  by (metis append.assoc)

lemmas gate_eval =
  isDomainAllowed_def urlHostname_def toLowerCase_def lowerChar_def startsWith_def
  endsWith_def trim_def isSpace_def afterLast_def

text \<open>
  Claim C2, as the gate decides it. With an empty allowlist every URL passes. Otherwise a
  URL passes exactly when its host name can be read and, in lower case, is admitted by
  some entry once that entry is put in lower case and trimmed of surrounding white space:
  it equals the entry, or the entry is \<^verbatim>\<open>*.<domain>\<close> and the host name is the domain or ends
  in \<^verbatim>\<open>.<domain>\<close>. So \<^verbatim>\<open>["*.example.com"]\<close> passes \<^verbatim>\<open>https://example.com\<close> and
  \<^verbatim>\<open>https://app.example.com\<close> and blocks \<^verbatim>\<open>https://evil.com\<close>. The message of a rejection
  contains the blocked URL and the name of the flow.
\<close>

theorem isDomainAllowed_decision:
  "(isDomainAllowed hostnameOf u allowed \<longleftrightarrow>
      allowed = [] \<or>
      (\<exists>host entry. hostnameOf u = Some host \<and> entry \<in> set allowed \<and>
         entryAdmits (toLowerCase host) (trim (toLowerCase entry)))) \<and>
   isDomainAllowed urlHostname ''https://example.com'' [''*.example.com''] \<and>
   isDomainAllowed urlHostname ''https://app.example.com'' [''*.example.com''] \<and>
   \<not> isDomainAllowed urlHostname ''https://evil.com'' [''*.example.com''] \<and>
   (\<not> isDomainAllowed hostnameOf u allowed \<longrightarrow>
      (\<exists>a b c. assertDomainAllowed hostnameOf u allowed fname =
         Inl (a @ u @ b @ fname @ c)))"
proof (intro conjI)
  show "isDomainAllowed hostnameOf u allowed \<longleftrightarrow>
      allowed = [] \<or>
      (\<exists>host entry. hostnameOf u = Some host \<and> entry \<in> set allowed \<and>
         entryAdmits (toLowerCase host) (trim (toLowerCase entry)))"
    by (auto simp: isDomainAllowed_def matchesAllowlist_iff split: option.splits)
  show "isDomainAllowed urlHostname ''https://example.com'' [''*.example.com'']"
    by (simp add: gate_eval)
  show "isDomainAllowed urlHostname ''https://app.example.com'' [''*.example.com'']"
    by (simp add: gate_eval)
  show "\<not> isDomainAllowed urlHostname ''https://evil.com'' [''*.example.com'']"
    by (simp add: gate_eval)
  show "\<not> isDomainAllowed hostnameOf u allowed \<longrightarrow>
      (\<exists>a b c. assertDomainAllowed hostnameOf u allowed fname =
         Inl (a @ u @ b @ fname @ c))"
    using securityMessage_names [of u allowed fname]
    by (simp add: assertDomainAllowed_def)
qed

theorem isDomainAllowed_decision_witness:
  "isDomainAllowed urlHostname ''https://EXAMPLE.COM/path'' ['' Example.com ''] \<and>
   entryAdmits ''example.com'' ''example.com'' \<and>
   \<not> isDomainAllowed urlHostname ''https://malicious.net'' [''example.com''] \<and>
   (\<exists>a b c. assertDomainAllowed urlHostname ''https://malicious.net'' [''example.com''] ''my-flow'' =
      Inl (a @ ''https://malicious.net'' @ b @ ''my-flow'' @ c))"
  using isDomainAllowed_decision [of urlHostname "''https://malicious.net''" "[''example.com'']" "''my-flow''"]
  by (simp add: gate_eval entryAdmits_def)

text \<open>
  The gate as the specification words it differs on an entry with surrounding white
  space: the entry \<^verbatim>\<open>" example.com"\<close> is not equal to the host name \<^verbatim>\<open>example.com\<close>, yet
  the gate trims it and lets the URL pass.
\<close>

theorem isDomainAllowed_counterexample:
  "isDomainAllowed urlHostname ''https://example.com'' ['' example.com''] \<and>
   \<not> gateAsSpecified urlHostname ''https://example.com'' ['' example.com'']"
  by (simp add: gate_eval gateAsSpecified_def entryPermits_def)

text \<open>
  Claim C10. The decision is a total function to a truth value: the one call that can
  throw, the URL constructor, is caught. With an empty allowlist it is true whatever the
  string, the URL not being read at all (so also when it cannot be read); with a
  non-empty allowlist a URL whose host name cannot be read is refused.
\<close>

theorem isDomainAllowed_total:
  "isDomainAllowed hostnameOf u [] \<and>
   (allowed \<noteq> [] \<and> hostnameOf u = None \<longrightarrow>
      \<not> isDomainAllowed hostnameOf u allowed)"
  by (simp add: isDomainAllowed_def)

theorem isDomainAllowed_total_witness:
  "urlHostname ''not-a-url'' = None \<and>
   isDomainAllowed urlHostname ''not-a-url'' [] \<and>
   \<not> isDomainAllowed urlHostname ''not-a-url'' [''example.com'']"
  using isDomainAllowed_total [of urlHostname "''not-a-url''" "[''example.com'']"]
  by (simp add: urlHostname_def toLowerCase_def)

section \<open>Properties of the run statistics\<close>

lemma roundEven_near: "\<bar>of_int (roundEven y) - y\<bar> \<le> 1 / 2"
  unfolding roundEven_def Let_def by (auto; linarith)

lemma roundEven_of_int [simp]: "roundEven (of_int k) = k"
  by (simp add: roundEven_def)

lemma fl_0 [simp]: "fl 0 = 0"
  by (simp add: fl_def)

lemma fl_error: "\<bar>fl x - x\<bar> \<le> \<bar>x\<bar> / 2 ^ 53"
proof (cases "x = 0")
  case True
  then show ?thesis by simp
next
  case False
  define L where "L = \<lfloor>log 2 \<bar>x\<bar>\<rfloor>"
  define s :: real where "s = 2 powr of_int (L - 52)"
  have pos: "0 < \<bar>x\<bar>" using False by simp
  have s0: "0 < s" by (simp add: s_def)
  have "2 powr of_int L \<le> 2 powr log 2 \<bar>x\<bar>"
    unfolding L_def by (intro powr_mono) simp_all
  then have low: "2 powr of_int L \<le> \<bar>x\<bar>" using pos by simp
  have "s = 2 powr of_int L / 2 powr 52"
    by (simp add: s_def powr_diff)
  also have "(2::real) powr 52 = 2 ^ 52"
    by (simp add: powr_numeral)
  finally have s: "s = 2 powr of_int L / 2 ^ 52" .
  with low have sle: "s \<le> \<bar>x\<bar> / 2 ^ 52" by (simp add: divide_right_mono)
  have "fl x = of_int (roundEven (x / s)) * s"
    using False by (simp add: fl_def L_def s_def Let_def)
  then have "fl x - x = (of_int (roundEven (x / s)) - x / s) * s"
    using s0 by (simp add: algebra_simps)
  then have "\<bar>fl x - x\<bar> = \<bar>of_int (roundEven (x / s)) - x / s\<bar> * s"
    using s0 by (simp add: abs_mult)
  also have "\<dots> \<le> 1 / 2 * s"
    using roundEven_near [of "x / s"] s0 by (intro mult_right_mono) simp_all
  also have "\<dots> \<le> 1 / 2 * (\<bar>x\<bar> / 2 ^ 52)"
    using sle by simp
  finally show ?thesis by simp
qed

lemma fl_eval:
  assumes "2 ^ 52 \<le> \<bar>x\<bar> * 2 ^ p" and "\<bar>x\<bar> * 2 ^ p < 2 ^ 53"
  shows "fl x = of_int (roundEven (x * 2 ^ p)) / 2 ^ p"
proof -
  from assms(1) have nz: "x \<noteq> 0" by auto
  then have pos: "0 < \<bar>x\<bar>" by simp
  have e: "(2::real) powr of_int (52 - int p) = 2 ^ 52 / 2 ^ p"
    by (simp add: powr_diff powr_realpow flip: powr_numeral)
  have e': "(2::real) powr of_int (52 - int p + 1) = 2 ^ 53 / 2 ^ p"
    by (simp add: powr_diff powr_add powr_realpow flip: powr_numeral)
  have a: "2 powr of_int (52 - int p) \<le> \<bar>x\<bar>"
    unfolding e using assms(1) by (simp add: field_simps)
  have b: "\<bar>x\<bar> < 2 powr of_int (52 - int p + 1)"
    unfolding e' using assms(2) by (simp add: field_simps)
  have "(\<lfloor>log 2 \<bar>x\<bar>\<rfloor> = 52 - int p) =
      (2 powr of_int (52 - int p) \<le> \<bar>x\<bar> \<and> \<bar>x\<bar> < 2 powr of_int (52 - int p + 1))"
    using pos by (intro floor_log_eq_powr_iff) simp_all
  with a b have "\<lfloor>log 2 \<bar>x\<bar>\<rfloor> = 52 - int p" by blast
  moreover have "(2::real) powr of_int (- int p) = 1 / 2 ^ p"
    by (simp add: powr_minus powr_realpow divide_inverse)
  ultimately show ?thesis
    using nz by (simp add: fl_def Let_def)
qed

lemma Math_round_near:
  assumes "\<bar>z - of_int k\<bar> < 1 / 2"
  shows "Math_round z = k"
  unfolding Math_round_def using assms by (intro floor_unique) linarith+

lemma recovered_count:
  assumes "0 < n" and "k \<le> n" and "n < 2 ^ 50"
  shows "Math_round (fl (fl (real k / real n) * real n)) = int k"
proof -
  define r where "r = fl (real k / real n)"
  have n0: "0 < real n" using assms(1) by simp
  have k50: "real k < 2 ^ 50"
  proof -
    have "real k \<le> real n" using assms(2) by simp
    also have "real n < 2 ^ 50" using assms(3) by (metis of_nat_less_iff of_nat_numeral of_nat_power)
    finally show ?thesis .
  qed
  have "\<bar>r - real k / real n\<bar> \<le> \<bar>real k / real n\<bar> / 2 ^ 53"
    unfolding r_def by (rule fl_error)
  then have "\<bar>r - real k / real n\<bar> * real n \<le> (real k / real n) / 2 ^ 53 * real n"
    using n0 by (intro mult_right_mono) simp_all
  moreover have "\<bar>r - real k / real n\<bar> * real n = \<bar>r * real n - real k\<bar>"
  proof -
    have "\<bar>r - real k / real n\<bar> * real n = \<bar>r - real k / real n\<bar> * \<bar>real n\<bar>" by simp
    also have "\<dots> = \<bar>(r - real k / real n) * real n\<bar>" by (rule abs_mult [symmetric])
    also have "(r - real k / real n) * real n = r * real n - real k"
      using n0 by (simp add: left_diff_distrib)
    finally show ?thesis .
  qed
  ultimately have d1: "\<bar>r * real n - real k\<bar> \<le> real k / 2 ^ 53"
    using n0 by simp
  then have "\<bar>r * real n\<bar> \<le> real k + real k / 2 ^ 53" by linarith
  moreover have "\<bar>fl (r * real n) - r * real n\<bar> \<le> \<bar>r * real n\<bar> / 2 ^ 53"
    by (rule fl_error)
  ultimately have d2: "\<bar>fl (r * real n) - r * real n\<bar> \<le> (real k + real k / 2 ^ 53) / 2 ^ 53"
    by (smt (verit) divide_right_mono zero_le_power)
  have "\<bar>fl (r * real n) - real k\<bar> \<le> real k / 2 ^ 53 + (real k + real k / 2 ^ 53) / 2 ^ 53"
    using d1 d2 by linarith
  also have "\<dots> < 1 / 2"
    using k50 by (simp add: field_simps)
  finally have "\<bar>fl (r * real n) - of_int (int k)\<bar> < 1 / 2" by simp
  then show ?thesis unfolding r_def by (rule Math_round_near)
qed


lemma fl_of_int:
  assumes "\<bar>m\<bar> < 2 ^ 53"
  shows "fl (of_int m) = of_int m"
proof (cases "m = 0")
  case True
  then show ?thesis by simp
next
  case False
  define x where "x = real_of_int m"
  define L where "L = \<lfloor>log 2 \<bar>x\<bar>\<rfloor>"
  have nz: "x \<noteq> 0" using False by (simp add: x_def)
  then have pos: "0 < \<bar>x\<bar>" by simp
  have "\<bar>x\<bar> < 2 ^ 53"
  proof -
    have "\<bar>x\<bar> = real_of_int \<bar>m\<bar>" by (simp add: x_def)
    also have "\<dots> < real_of_int (2 ^ 53)" using assms by (simp only: of_int_less_iff)
    finally show ?thesis by simp
  qed
  moreover have "2 powr of_int L \<le> 2 powr log 2 \<bar>x\<bar>"
    unfolding L_def by (intro powr_mono) simp_all
  ultimately have "2 powr of_int L < (2::real) ^ 53" using pos by simp
  then have "(2::real) powr of_int L < 2 powr 53" by (simp add: powr_numeral)
  then have "real_of_int L < 53" by (rule powr_less_cancel) simp
  then have L: "L \<le> 52" by linarith
  define j where "j = nat (52 - L)"
  have "real_of_int (L - 52) = - real j" using L by (simp add: j_def)
  then have e: "2 powr real_of_int (L - 52) = 1 / 2 ^ j"
    by (simp add: powr_minus powr_realpow divide_inverse)
  have "x / (1 / 2 ^ j) = real_of_int (m * 2 ^ j)" by (simp add: x_def)
  then have "roundEven (x / (1 / 2 ^ j)) = m * 2 ^ j" by (simp only: roundEven_of_int)
  then have "fl x = x"
    using nz unfolding fl_def L_def [symmetric] Let_def e by (simp add: x_def)
  then show ?thesis by (simp add: x_def)
qed

lemma recordRunResult_last:
  "versions d = h @ [v] \<Longrightarrow>
   versions (recordRunResult d ok) = h @ [updateLatest v ok]"
  by (simp add: recordRunResult_def Let_def)

lemma updateLatest_counts:
  assumes "runCount v = Some n"
    and "(n = 0 \<and> k = 0) \<or> (0 < n \<and> successRate v = Some (fl (real k / real n)))"
    and "k \<le> n" and "n < 2 ^ 50"
  shows "updateLatest v ok =
     v\<lparr>runCount := Some (Suc n),
       successRate := Some (fl (real (k + (if ok then 1 else 0)) / real (Suc n)))\<rparr>"
proof -
  have "Math_round (fl ((case successRate v of None \<Rightarrow> 0 | Some r \<Rightarrow> r) * real n)) = int k"
  proof (cases "n = 0")
    case True
    with assms(2) show ?thesis by (simp add: Math_round_def)
  next
    case False
    with assms(2) have "successRate v = Some (fl (real k / real n))" by simp
    with recovered_count [of n k] False assms(3,4) show ?thesis by simp
  qed
  with assms(1) show ?thesis
    by (simp add: updateLatest_def Let_def)
qed

lemma recordRunResult_history:
  assumes "versions d = h @ [v]" and "runCount v = Some 0" and "length rs < 2 ^ 50"
  shows "versions (foldl recordRunResult d rs) =
     h @ [if rs = [] then v
          else v\<lparr>runCount := Some (length rs),
                 successRate := Some (fl (real (length (filter (\<lambda>s. s) rs)) / real (length rs)))\<rparr>]"
  using assms(3)
proof (induction rs rule: rev_induct)
  case Nil
  with assms show ?case by simp
next
  case (snoc x xs)
  let ?w = "if xs = [] then v
          else v\<lparr>runCount := Some (length xs),
                 successRate := Some (fl (real (length (filter (\<lambda>s. s) xs)) / real (length xs)))\<rparr>"
  from snoc have w: "versions (foldl recordRunResult d xs) = h @ [?w]" and len: "length xs < 2 ^ 50"
    by simp_all
  have c: "runCount ?w = Some (length xs)" using assms(2) by simp
  have r: "(length xs = 0 \<and> length (filter (\<lambda>s. s) xs) = 0) \<or>
        (0 < length xs \<and>
         successRate ?w = Some (fl (real (length (filter (\<lambda>s. s) xs)) / real (length xs))))"
    by (cases xs) auto
  have k: "length (filter (\<lambda>s. s) xs) \<le> length xs" by simp
  have "updateLatest ?w x =
      v\<lparr>runCount := Some (length (xs @ [x])),
        successRate := Some (fl (real (length (filter (\<lambda>s. s) (xs @ [x]))) / real (length (xs @ [x]))))\<rparr>"
    unfolding updateLatest_counts [OF c r k len, of x] by simp
  then show ?case
    by (simp add: recordRunResult_last [OF w])
qed

lemma runningAverage_whole:
  assumes "fl (r * real n) = of_int m" and "\<bar>m\<bar> < 2 ^ 52"
  shows "runningAverage r n ok = fl (real_of_int (Math_round (fl (r * real n)) + (if ok then 1 else 0)) / real (n + 1))"
proof -
  have "\<bar>m + (if ok then 1 else 0)\<bar> < 2 ^ 53" using assms(2) by auto
  from fl_of_int [OF this]
  have "fl (of_int m + (if ok then 1 else 0)) = of_int m + (if ok then 1 else 0)"
    by (simp split: if_splits)
  moreover have "Math_round (of_int m) = m" by (simp add: Math_round_def)
  ultimately show ?thesis
    unfolding runningAverage_def assms(1) by (simp split: if_splits)
qed

text \<open>
  Claim C8, as the code computes it. Recording a run changes the last version of the
  history only: its run count becomes the old count plus one, and its success rate becomes
  the double nearest to \<open>(round (oldRate * oldRunCount) + s) / (oldRunCount + 1)\<close>, the
  product being rounded to a double first, \<open>s\<close> being 1 for a success and 0 for a failure,
  a missing rate or count reading as 0. Whenever the double product
  \<open>oldRate * oldRunCount\<close> is a whole number, this is the running average of the
  specification evaluated in doubles. For an aggregate the code itself has written, that is
  the double nearest to \<open>k / n\<close> after \<open>k\<close> successes in \<open>n < 2^50\<close> runs, the rounding recovers
  \<open>k\<close>: the new rate is the double nearest to the true running average
  \<open>(k + s) / (n + 1)\<close>, within a relative error of \<open>2^-53\<close>; so after any runs of a freshly
  archived version its rate is the double nearest to successes over runs.
\<close>

theorem recordRunResult_rounded_average:
  assumes "versions d = h @ [v]"
    and "n = (case runCount v of None \<Rightarrow> 0 | Some c \<Rightarrow> c)"
    and "r = (case successRate v of None \<Rightarrow> 0 | Some x \<Rightarrow> x)"
  shows "versions (recordRunResult d ok) =
       h @ [v\<lparr>runCount := Some (n + 1),
              successRate := Some (fl (real_of_int (Math_round (fl (r * real n)) + (if ok then 1 else 0)) /
                                       real (n + 1)))\<rparr>] \<and>
     (fl (r * real n) = of_int m \<and> \<bar>m\<bar> < 2 ^ 52 \<longrightarrow>
        versions (recordRunResult d ok) =
          h @ [v\<lparr>runCount := Some (n + 1), successRate := Some (runningAverage r n ok)\<rparr>]) \<and>
     (k \<le> n \<and> n < 2 ^ 50 \<and> (n = 0 \<and> k = 0 \<or> 0 < n \<and> r = fl (real k / real n)) \<longrightarrow>
        versions (recordRunResult d ok) =
          h @ [v\<lparr>runCount := Some (n + 1),
                 successRate := Some (fl (real (k + (if ok then 1 else 0)) / real (n + 1)))\<rparr>] \<and>
        \<bar>fl (real (k + (if ok then 1 else 0)) / real (n + 1)) -
           real (k + (if ok then 1 else 0)) / real (n + 1)\<bar>
          \<le> real (k + (if ok then 1 else 0)) / real (n + 1) / 2 ^ 53) \<and>
     (runCount v = Some 0 \<and> rs \<noteq> [] \<and> length rs < 2 ^ 50 \<longrightarrow>
        versions (foldl recordRunResult d rs) =
          h @ [v\<lparr>runCount := Some (length rs),
                 successRate := Some (fl (real (length (filter (\<lambda>s. s) rs)) / real (length rs)))\<rparr>])"
proof (intro conjI impI)
  show g: "versions (recordRunResult d ok) =
       h @ [v\<lparr>runCount := Some (n + 1),
              successRate := Some (fl (real_of_int (Math_round (fl (r * real n)) + (if ok then 1 else 0)) /
                                       real (n + 1)))\<rparr>]"
    using assms by (simp add: recordRunResult_last updateLatest_def Let_def)
  {
    assume "fl (r * real n) = of_int m \<and> \<bar>m\<bar> < 2 ^ 52"
    then have "runningAverage r n ok =
        fl (real_of_int (Math_round (fl (r * real n)) + (if ok then 1 else 0)) / real (n + 1))"
      by (intro runningAverage_whole [of r n m]) simp_all
    with g show "versions (recordRunResult d ok) =
          h @ [v\<lparr>runCount := Some (n + 1), successRate := Some (runningAverage r n ok)\<rparr>]"
      by simp
  }
  {
    assume a: "k \<le> n \<and> n < 2 ^ 50 \<and> (n = 0 \<and> k = 0 \<or> 0 < n \<and> r = fl (real k / real n))"
    have "Math_round (fl (r * real n)) = int k"
    proof (cases "n = 0")
      case True
      with a show ?thesis by (simp add: Math_round_def)
    next
      case False
      with a recovered_count [of n k] show ?thesis by simp
    qed
    with g show "versions (recordRunResult d ok) =
          h @ [v\<lparr>runCount := Some (n + 1),
                 successRate := Some (fl (real (k + (if ok then 1 else 0)) / real (n + 1)))\<rparr>]"
      by simp
    have "\<bar>fl (real (k + (if ok then 1 else 0)) / real (n + 1)) -
           real (k + (if ok then 1 else 0)) / real (n + 1)\<bar>
          \<le> \<bar>real (k + (if ok then 1 else 0)) / real (n + 1)\<bar> / 2 ^ 53"
      by (rule fl_error)
    then show "\<bar>fl (real (k + (if ok then 1 else 0)) / real (n + 1)) -
           real (k + (if ok then 1 else 0)) / real (n + 1)\<bar>
          \<le> real (k + (if ok then 1 else 0)) / real (n + 1) / 2 ^ 53"
      by simp
  }
  {
    assume a: "runCount v = Some 0 \<and> rs \<noteq> [] \<and> length rs < 2 ^ 50"
    then show "versions (foldl recordRunResult d rs) =
          h @ [v\<lparr>runCount := Some (length rs),
                 successRate := Some (fl (real (length (filter (\<lambda>s. s) rs)) / real (length rs)))\<rparr>]"
      using recordRunResult_history [OF assms(1), of rs] by simp
  }
qed

lemma fl_examples:
  "fl 1 = 1"
  "fl (2 / 3) = 6004799503160661 / 9007199254740992"
  "fl (15 / 29) = 4658896166245341 / 9007199254740992"
  "fl (1 / 2) = 1 / 2"
  "fl (135107988821114889 / 9007199254740992) = 8444249301319681 / 562949953421312"
  "fl (8444249301319681 / 562949953421312) = 8444249301319681 / 562949953421312"
  "fl (8444249301319681 / 16888498602639360) = 4503599627370497 / 9007199254740992"
proof -
  show "fl 1 = 1" using fl_of_int [of 1] by simp
  show "fl (2 / 3) = 6004799503160661 / 9007199254740992"
    by (subst fl_eval [where p = 53]) (simp_all add: roundEven_def Let_def)
  show "fl (15 / 29) = 4658896166245341 / 9007199254740992"
    by (subst fl_eval [where p = 53]) (simp_all add: roundEven_def Let_def)
  show "fl (1 / 2) = 1 / 2"
    by (subst fl_eval [where p = 53]) (simp_all add: roundEven_def Let_def)
  show "fl (135107988821114889 / 9007199254740992) = 8444249301319681 / 562949953421312"
    by (subst fl_eval [where p = 49]) (simp_all add: roundEven_def Let_def)
  show "fl (8444249301319681 / 562949953421312) = 8444249301319681 / 562949953421312"
    by (subst fl_eval [where p = 49]) (simp_all add: roundEven_def Let_def)
  show "fl (8444249301319681 / 16888498602639360) = 4503599627370497 / 9007199254740992"
    by (subst fl_eval [where p = 53]) (simp_all add: roundEven_def Let_def)
qed

theorem recordRunResult_rounded_average_witness:
  "versions (recordRunResult evenDir True) =
     [\<lparr>version = 1, savedAt = 0, scriptFile = ''script.v1.ts'',
       successRate = Some (6004799503160661 / 9007199254740992), runCount = Some 3\<rparr>] \<and>
   runningAverage (1 / 2) 2 True = 6004799503160661 / 9007199254740992 \<and>
   \<bar>fl (2 / 3) - 2 / 3\<bar> \<le> 2 / 3 / 2 ^ 53 \<and>
   versions (foldl recordRunResult freshDir [True, False, True]) =
     [\<lparr>version = 1, savedAt = 0, scriptFile = ''script.v1.ts'',
       successRate = Some (6004799503160661 / 9007199254740992), runCount = Some 3\<rparr>]"
proof -
  let ?v = "\<lparr>version = 1, savedAt = 0, scriptFile = ''script.v1.ts'', successRate = Some (1 / 2),
             runCount = Some 2\<rparr>"
  let ?w = "\<lparr>version = 1, savedAt = 0, scriptFile = ''script.v1.ts'', successRate = None,
             runCount = Some 0\<rparr>"
  have e: "versions evenDir = [] @ [?v]" by (simp add: evenDir_def)
  have f: "versions freshDir = [] @ [?w]" by (simp add: freshDir_def)
  note even = recordRunResult_rounded_average [OF e, where n = 2 and r = "1 / 2" and ok = True
      and m = 1 and k = 1 and rs = "[]"]
  have a: "versions (recordRunResult evenDir True) =
     [\<lparr>version = 1, savedAt = 0, scriptFile = ''script.v1.ts'',
       successRate = Some (6004799503160661 / 9007199254740992), runCount = Some 3\<rparr>]"
    using even by (simp add: fl_examples Math_round_def)
  have "versions (recordRunResult evenDir True) =
     [\<lparr>version = 1, savedAt = 0, scriptFile = ''script.v1.ts'',
       successRate = Some (runningAverage (1 / 2) 2 True), runCount = Some 3\<rparr>]"
    using even [THEN conjunct2, THEN conjunct1] by (simp add: fl_examples)
  then have b: "runningAverage (1 / 2) 2 True = 6004799503160661 / 9007199254740992"
    unfolding a by simp
  have c: "\<bar>fl (2 / 3) - 2 / 3\<bar> \<le> 2 / 3 / 2 ^ 53"
    using even by (simp add: fl_examples)
  have d: "versions (foldl recordRunResult freshDir [True, False, True]) =
     [\<lparr>version = 1, savedAt = 0, scriptFile = ''script.v1.ts'',
       successRate = Some (6004799503160661 / 9007199254740992), runCount = Some 3\<rparr>]"
    using recordRunResult_rounded_average [OF f, where n = 0 and r = 0 and ok = True
      and m = 0 and k = 0 and rs = "[True, False, True]"]
    by (simp add: fl_examples)
  from a b c d show ?thesis by simp
qed

text \<open>
  For an aggregate the code has written, the running average of the specification,
  evaluated on the stored rate, is not what is stored. After 15 successes in 29 runs the
  stored rate is the double nearest to 15/29; a failure then stores exactly 1/2, while the
  formula gives \<open>1/2 + 2^-53\<close>, the product of the stored rate and 29 being the double just
  above 15.
\<close>

theorem recordRunResult_counterexample:
  "versions (foldl recordRunResult freshDir (replicate 15 True @ replicate 14 False)) =
     [\<lparr>version = 1, savedAt = 0, scriptFile = ''script.v1.ts'',
       successRate = Some (4658896166245341 / 9007199254740992), runCount = Some 29\<rparr>] \<and>
   versions (recordRunResult (foldl recordRunResult freshDir (replicate 15 True @ replicate 14 False)) False) =
     [\<lparr>version = 1, savedAt = 0, scriptFile = ''script.v1.ts'',
       successRate = Some (1 / 2), runCount = Some 30\<rparr>] \<and>
   runningAverage (4658896166245341 / 9007199254740992) 29 False =
     4503599627370497 / 9007199254740992"
proof -
  let ?w = "\<lparr>version = 1, savedAt = 0, scriptFile = ''script.v1.ts'', successRate = None,
             runCount = Some 0\<rparr>"
  have f: "versions freshDir = [] @ [?w]" by (simp add: freshDir_def)
  have h: "versions (foldl recordRunResult freshDir (replicate 15 True @ replicate 14 False)) =
     [] @ [if replicate 15 True @ replicate 14 False = [] then ?w
          else ?w\<lparr>runCount := Some (length (replicate 15 True @ replicate 14 False)),
                 successRate := Some (fl (real (length (filter (\<lambda>s. s) (replicate 15 True @ replicate 14 False))) /
                    real (length (replicate 15 True @ replicate 14 False))))\<rparr>]"
    by (rule recordRunResult_history [OF f]) simp_all
  have a: "versions (foldl recordRunResult freshDir (replicate 15 True @ replicate 14 False)) =
     [] @ [\<lparr>version = 1, savedAt = 0, scriptFile = ''script.v1.ts'',
       successRate = Some (4658896166245341 / 9007199254740992), runCount = Some 29\<rparr>]"
    unfolding h by (simp add: fl_examples)
  have b: "versions (recordRunResult (foldl recordRunResult freshDir (replicate 15 True @ replicate 14 False)) False) =
     [\<lparr>version = 1, savedAt = 0, scriptFile = ''script.v1.ts'',
       successRate = Some (1 / 2), runCount = Some 30\<rparr>]"
    unfolding recordRunResult_last [OF a]
    by (simp add: updateLatest_def Let_def fl_examples Math_round_def)
  have c: "runningAverage (4658896166245341 / 9007199254740992) 29 False =
     4503599627370497 / 9007199254740992"
    by (simp add: runningAverage_def fl_examples)
  from a b c show ?thesis by simp
qed

section \<open>Properties of rollback\<close>

lemma decimal_nonempty: "decimal n \<noteq> []"
  by (subst decimal.simps) simp

lemma digit_inj:
  assumes "a < 10" "b < 10" "''0123456789'' ! a = ''0123456789'' ! b"
  shows "a = b"
proof -
  have "distinct ''0123456789''" by simp
  moreover have "a < length ''0123456789''" "b < length ''0123456789''" using assms by simp_all
  ultimately show ?thesis using assms(3) by (simp only: nth_eq_iff_index_eq)
qed

lemma decimal_inj: "decimal n = decimal m \<Longrightarrow> n = m"
proof (induction n arbitrary: m rule: decimal.induct)
  case (1 n)
  show ?case
  proof (cases "n < 10")
    case True
    then have n: "decimal n = [''0123456789'' ! n]" by (subst decimal.simps) simp
    show ?thesis
    proof (cases "m < 10")
      case mlt: True
      then have "decimal m = [''0123456789'' ! m]" by (subst decimal.simps) simp
      with n "1.prems" True mlt show ?thesis by (auto intro: digit_inj)
    next
      case False
      then have "decimal m = decimal (m div 10) @ [''0123456789'' ! (m mod 10)]"
        by (subst decimal.simps) simp
      with n "1.prems" decimal_nonempty [of "m div 10"] show ?thesis by simp
    qed
  next
    case False
    then have n: "decimal n = decimal (n div 10) @ [''0123456789'' ! (n mod 10)]"
      by (subst decimal.simps) simp
    show ?thesis
    proof (cases "m < 10")
      case True
      then have "decimal m = [''0123456789'' ! m]" by (subst decimal.simps) simp
      with n "1.prems" decimal_nonempty [of "n div 10"] show ?thesis by simp
    next
      case mge: False
      then have "decimal m = decimal (m div 10) @ [''0123456789'' ! (m mod 10)]"
        by (subst decimal.simps) simp
      with n "1.prems" have eq: "decimal (n div 10) = decimal (m div 10)"
        and dg: "''0123456789'' ! (n mod 10) = ''0123456789'' ! (m mod 10)" by simp_all
      from "1.IH" [OF False eq] have "n div 10 = m div 10" .
      moreover from dg have "n mod 10 = m mod 10" by (intro digit_inj) simp_all
      ultimately show ?thesis by (metis div_mult_mod_eq)
    qed
  qed
qed

lemma archiveName_inj: "archiveName n = archiveName m \<Longrightarrow> n = m"
  by (simp add: archiveName_def decimal_inj)

lemma archiveName_not_script: "archiveName n \<noteq> ''script.ts''"
  by (simp add: archiveName_def)

lemma hd_sort_key_least:
  assumes "xs \<noteq> []"
  shows "hd (sort_key f xs) \<in> set xs \<and> (\<forall>x\<in>set xs. f (hd (sort_key f xs)) \<le> f x)"
proof -
  from assms have ne: "sort_key f xs \<noteq> []"
    by (metis length_0_conv length_sort)
  then obtain y ys where ys: "sort_key f xs = y # ys" by (cases "sort_key f xs") auto
  have "sorted (map f (sort_key f xs))" by (rule sorted_sort_key)
  with ys have "\<forall>z\<in>set ys. f y \<le> f z" by simp
  moreover have "set (y # ys) = set xs" using ys by (metis set_sort)
  ultimately show ?thesis using ys by auto
qed

lemma rollbackTarget_best:
  assumes "history \<noteq> []"
  shows "rollbackTarget now history \<in> set history \<and>
         (\<forall>v\<in>set history. score now v \<le> score now (rollbackTarget now history))"
proof -
  let ?scored = "map (\<lambda>v. (v, score now v)) history"
  let ?top = "hd (sort_key (\<lambda>s. - snd s) ?scored)"
  from assms have "?scored \<noteq> []" by simp
  from hd_sort_key_least [OF this, of "\<lambda>s. - snd s"]
  have mem: "?top \<in> set ?scored" and least: "\<forall>x\<in>set ?scored. - snd ?top \<le> - snd x"
    by blast+
  from mem have top: "fst ?top \<in> set history" "snd ?top = score now (fst ?top)" by auto
  have "\<forall>v\<in>set history. score now v \<le> snd ?top"
    using least by auto
  with top show ?thesis by (simp add: rollbackTarget_def)
qed

lemma recency_days:
  "recency now v = max 0 (1 - ((now - savedAt v) / 86400000) / 30)"
  by (simp add: recency_def maxAgeMs_def)

lemma recency_old: "30 * 86400000 \<le> now - savedAt v \<Longrightarrow> recency now v = 0"
  by (simp add: recency_def maxAgeMs_def)

lemma rollback_result:
  assumes "versions d \<noteq> []"
    and "files d (scriptFile (rollbackTarget now (versions d))) = Some restored"
    and "files d ''script.ts'' = Some current"
    and "scriptFile (rollbackTarget now (versions d)) \<noteq> archiveName (nextVersionOf (versions d))"
  shows "rollback now d =
    (True, \<lparr>files = (files d)(archiveName (nextVersionOf (versions d)) \<mapsto> current, ''script.ts'' \<mapsto> restored),
            versions = versions d @
              [\<lparr>version = nextVersionOf (versions d), savedAt = now,
                scriptFile = archiveName (nextVersionOf (versions d)),
                successRate = None, runCount = Some 0\<rparr>]\<rparr>)"
  using assms by (simp add: rollback_def archiveCurrentScript_def Let_def)


lemma historyWritten_fresh:
  assumes "historyWritten history" and "v \<in> set history"
  shows "scriptFile v \<noteq> archiveName (nextVersionOf history)" and "scriptFile v \<noteq> ''script.ts''"
proof -
  from assms have f: "scriptFile v = archiveName (version v)" and lt: "version v < nextVersionOf history"
    by (auto simp: historyWritten_def)
  from lt show "scriptFile v \<noteq> archiveName (nextVersionOf history)"
    unfolding f using archiveName_inj by fastforce
  show "scriptFile v \<noteq> ''script.ts''"
    unfolding f by (rule archiveName_not_script)
qed

lemma historyWritten_snoc:
  assumes "historyWritten history"
  shows "historyWritten (history @
     [\<lparr>version = nextVersionOf history, savedAt = t, scriptFile = archiveName (nextVersionOf history),
       successRate = r, runCount = c\<rparr>])"
  using assms by (auto simp: historyWritten_def nextVersionOf_def less_Suc_eq)

lemma archiveCurrentScript_written:
  "historyWritten (versions d) \<Longrightarrow> historyWritten (versions (snd (archiveCurrentScript now d)))"
  by (auto simp: archiveCurrentScript_def Let_def historyWritten_snoc split: option.splits)

lemma rollback_written:
  "historyWritten (versions d) \<Longrightarrow> historyWritten (versions (snd (rollback now d)))"
  by (auto simp: rollback_def Let_def archiveCurrentScript_written)

lemma rollback_refuses:
  "versions d = [] \<or> files d (scriptFile (rollbackTarget now (versions d))) = None \<Longrightarrow>
   rollback now d = (False, d)"
  by (auto simp: rollback_def Let_def)

lemma rollback_without_script:
  assumes "versions d \<noteq> []"
    and "files d (scriptFile (rollbackTarget now (versions d))) = Some restored"
    and "files d ''script.ts'' = None"
  shows "rollback now d = (True, d\<lparr>files := (files d)(''script.ts'' \<mapsto> restored)\<rparr>)"
  using assms by (simp add: rollback_def archiveCurrentScript_def Let_def)

lemma rollbackTargetByRate_best:
  assumes "history \<noteq> []"
  shows "rollbackTargetByRate history \<in> set history \<and>
         (\<forall>v\<in>set history.
            (case successRate v of None \<Rightarrow> 0 | Some r \<Rightarrow> r) <
              (case successRate (rollbackTargetByRate history) of None \<Rightarrow> 0 | Some r \<Rightarrow> r) \<or>
            (case successRate v of None \<Rightarrow> 0 | Some r \<Rightarrow> r) =
              (case successRate (rollbackTargetByRate history) of None \<Rightarrow> 0 | Some r \<Rightarrow> r) \<and>
            version v \<le> version (rollbackTargetByRate history))"
proof -
  let ?key = "\<lambda>v. (- (case successRate v of None \<Rightarrow> 0 | Some r \<Rightarrow> r), - int (version v))"
  from hd_sort_key_least [OF assms, of ?key]
  have mem: "hd (sort_key ?key history) \<in> set history"
    and least: "\<forall>x\<in>set history. ?key (hd (sort_key ?key history)) \<le> ?key x"
    by blast+
  from least have "\<forall>v\<in>set history.
      (case successRate v of None \<Rightarrow> 0 | Some r \<Rightarrow> r) <
        (case successRate (hd (sort_key ?key history)) of None \<Rightarrow> 0 | Some r \<Rightarrow> r) \<or>
      (case successRate v of None \<Rightarrow> 0 | Some r \<Rightarrow> r) =
        (case successRate (hd (sort_key ?key history)) of None \<Rightarrow> 0 | Some r \<Rightarrow> r) \<and>
      version v \<le> version (hd (sort_key ?key history))"
    by (auto simp: less_eq_prod_def)
  with mem show ?thesis by (simp add: rollbackTargetByRate_def)
qed

lemma rollbackByRate_result:
  assumes "versions d \<noteq> []"
    and "files d (scriptFile (rollbackTargetByRate (versions d))) = Some restored"
    and "files d ''script.ts'' = Some current"
    and "scriptFile (rollbackTargetByRate (versions d)) \<noteq> archiveName (nextVersionOf (versions d))"
  shows "rollbackByRate now d =
    (True, \<lparr>files = (files d)(archiveName (nextVersionOf (versions d)) \<mapsto> current, ''script.ts'' \<mapsto> restored),
            versions = versions d @
              [\<lparr>version = nextVersionOf (versions d), savedAt = now,
                scriptFile = archiveName (nextVersionOf (versions d)),
                successRate = None, runCount = Some 0\<rparr>]\<rparr>)"
  using assms by (simp add: rollbackByRate_def archiveCurrentScript_def Let_def)

lemma rollbackByRate_written:
  "historyWritten (versions d) \<Longrightarrow> historyWritten (versions (snd (rollbackByRate now d)))"
  by (auto simp: rollbackByRate_def Let_def archiveCurrentScript_written)

lemma rollbackByRate_refuses:
  "versions d = [] \<or> files d (scriptFile (rollbackTargetByRate (versions d))) = None \<Longrightarrow>
   rollbackByRate now d = (False, d)"
  by (auto simp: rollbackByRate_def Let_def)

text \<open>
  Claim C9, for the two revisions of \<^verbatim>\<open>rollback\<close>. The time-weighted revision scores every
  recorded version \<open>0.7 * successRate + 0.3 * recency\<close> with
  \<open>recency = max 0 (1 - ageInDays / 30)\<close>, which is zero from 30 days on, and its target is a
  recorded version of maximal score. The revision of lib/flow-versioning.ts does not
  score: its target is a recorded version of maximal success rate, with the highest version
  number among those. In both revisions, when the archive file of the target exists,
  rollback succeeds: the script that was active is first copied to a new archive file,
  appended to the history as a new version, and then the target's file becomes the active
  script; on a history written by the engine, that new archive file and the active script
  are the file of no recorded version, so the file of every recorded version is left as it
  was. Of a version with success rate 0.9 saved 40 days ago and one with success rate 0.6
  saved 1 day ago, the time-weighted revision chooses the second and the other revision
  the first.
\<close>

theorem rollback_restores_best:
  assumes "versions d \<noteq> []" and "historyWritten (versions d)"
    and "files d ''script.ts'' = Some current"
  shows "(\<forall>v\<in>set (versions d).
        score now v = 0.7 * (case successRate v of None \<Rightarrow> 0 | Some r \<Rightarrow> r) +
                      0.3 * max 0 (1 - ((now - savedAt v) / 86400000) / 30) \<and>
        (30 * 86400000 \<le> now - savedAt v \<longrightarrow>
           score now v = 0.7 * (case successRate v of None \<Rightarrow> 0 | Some r \<Rightarrow> r)) \<and>
        score now v \<le> score now (rollbackTarget now (versions d)) \<and>
        ((case successRate v of None \<Rightarrow> 0 | Some r \<Rightarrow> r) <
           (case successRate (rollbackTargetByRate (versions d)) of None \<Rightarrow> 0 | Some r \<Rightarrow> r) \<or>
         (case successRate v of None \<Rightarrow> 0 | Some r \<Rightarrow> r) =
           (case successRate (rollbackTargetByRate (versions d)) of None \<Rightarrow> 0 | Some r \<Rightarrow> r) \<and>
         version v \<le> version (rollbackTargetByRate (versions d))) \<and>
        scriptFile v \<noteq> archiveName (nextVersionOf (versions d)) \<and>
        scriptFile v \<noteq> ''script.ts'') \<and>
     rollbackTarget now (versions d) \<in> set (versions d) \<and>
     rollbackTargetByRate (versions d) \<in> set (versions d) \<and>
     (files d (scriptFile (rollbackTarget now (versions d))) = Some restored \<longrightarrow>
        rollback now d =
          (True,
           \<lparr>files = (files d)(archiveName (nextVersionOf (versions d)) \<mapsto> current, ''script.ts'' \<mapsto> restored),
            versions = versions d @
              [\<lparr>version = nextVersionOf (versions d), savedAt = now,
                scriptFile = archiveName (nextVersionOf (versions d)),
                successRate = None, runCount = Some 0\<rparr>]\<rparr>)) \<and>
     (files d (scriptFile (rollbackTargetByRate (versions d))) = Some restored \<longrightarrow>
        rollbackByRate now d =
          (True,
           \<lparr>files = (files d)(archiveName (nextVersionOf (versions d)) \<mapsto> current, ''script.ts'' \<mapsto> restored),
            versions = versions d @
              [\<lparr>version = nextVersionOf (versions d), savedAt = now,
                scriptFile = archiveName (nextVersionOf (versions d)),
                successRate = None, runCount = Some 0\<rparr>]\<rparr>)) \<and>
     rollbackTarget t
       [\<lparr>version = na, savedAt = t - 40 * 86400000, scriptFile = fa, successRate = Some 0.9, runCount = ca\<rparr>,
        \<lparr>version = nb, savedAt = t - 1 * 86400000, scriptFile = fb, successRate = Some 0.6, runCount = cb\<rparr>]
       = \<lparr>version = nb, savedAt = t - 1 * 86400000, scriptFile = fb, successRate = Some 0.6, runCount = cb\<rparr> \<and>
     rollbackTargetByRate
       [\<lparr>version = na, savedAt = t - 40 * 86400000, scriptFile = fa, successRate = Some 0.9, runCount = ca\<rparr>,
        \<lparr>version = nb, savedAt = t - 1 * 86400000, scriptFile = fb, successRate = Some 0.6, runCount = cb\<rparr>]
       = \<lparr>version = na, savedAt = t - 40 * 86400000, scriptFile = fa, successRate = Some 0.9, runCount = ca\<rparr>"
proof -
  let ?target = "rollbackTarget now (versions d)"
  let ?byRate = "rollbackTargetByRate (versions d)"
  let ?next = "nextVersionOf (versions d)"
  from rollbackTarget_best [OF assms(1), of now]
  have mem: "?target \<in> set (versions d)"
    and best: "\<forall>v\<in>set (versions d). score now v \<le> score now ?target" by blast+
  from rollbackTargetByRate_best [OF assms(1)]
  have mem': "?byRate \<in> set (versions d)"
    and best': "\<forall>v\<in>set (versions d).
        (case successRate v of None \<Rightarrow> 0 | Some r \<Rightarrow> r) <
           (case successRate ?byRate of None \<Rightarrow> 0 | Some r \<Rightarrow> r) \<or>
        (case successRate v of None \<Rightarrow> 0 | Some r \<Rightarrow> r) =
           (case successRate ?byRate of None \<Rightarrow> 0 | Some r \<Rightarrow> r) \<and>
        version v \<le> version ?byRate" by blast+
  have fresh: "\<forall>v\<in>set (versions d). scriptFile v \<noteq> archiveName ?next \<and> scriptFile v \<noteq> ''script.ts''"
    using historyWritten_fresh [OF assms(2)] by simp
  have formula: "\<forall>v\<in>set (versions d).
        score now v = 0.7 * (case successRate v of None \<Rightarrow> 0 | Some r \<Rightarrow> r) +
                      0.3 * max 0 (1 - ((now - savedAt v) / 86400000) / 30)"
    by (simp add: score_def recency_days)
  have old: "\<forall>v\<in>set (versions d). 30 * 86400000 \<le> now - savedAt v \<longrightarrow>
           score now v = 0.7 * (case successRate v of None \<Rightarrow> 0 | Some r \<Rightarrow> r)"
    by (simp add: score_def recency_old)
  have all: "\<forall>v\<in>set (versions d).
        score now v = 0.7 * (case successRate v of None \<Rightarrow> 0 | Some r \<Rightarrow> r) +
                      0.3 * max 0 (1 - ((now - savedAt v) / 86400000) / 30) \<and>
        (30 * 86400000 \<le> now - savedAt v \<longrightarrow>
           score now v = 0.7 * (case successRate v of None \<Rightarrow> 0 | Some r \<Rightarrow> r)) \<and>
        score now v \<le> score now ?target \<and>
        ((case successRate v of None \<Rightarrow> 0 | Some r \<Rightarrow> r) <
           (case successRate ?byRate of None \<Rightarrow> 0 | Some r \<Rightarrow> r) \<or>
         (case successRate v of None \<Rightarrow> 0 | Some r \<Rightarrow> r) =
           (case successRate ?byRate of None \<Rightarrow> 0 | Some r \<Rightarrow> r) \<and>
         version v \<le> version ?byRate) \<and>
        scriptFile v \<noteq> archiveName ?next \<and>
        scriptFile v \<noteq> ''script.ts''"
    using formula old best best' fresh by blast
  have run: "rollback now d =
          (True,
           \<lparr>files = (files d)(archiveName ?next \<mapsto> current, ''script.ts'' \<mapsto> restored),
            versions = versions d @
              [\<lparr>version = ?next, savedAt = now, scriptFile = archiveName ?next,
                successRate = None, runCount = Some 0\<rparr>]\<rparr>)"
    if "files d (scriptFile ?target) = Some restored"
    using fresh mem by (intro rollback_result [OF assms(1) that assms(3)]) blast
  have run': "rollbackByRate now d =
          (True,
           \<lparr>files = (files d)(archiveName ?next \<mapsto> current, ''script.ts'' \<mapsto> restored),
            versions = versions d @
              [\<lparr>version = ?next, savedAt = now, scriptFile = archiveName ?next,
                successRate = None, runCount = Some 0\<rparr>]\<rparr>)"
    if "files d (scriptFile ?byRate) = Some restored"
    using fresh mem' by (intro rollbackByRate_result [OF assms(1) that assms(3)]) blast
  have example: "rollbackTarget t
       [\<lparr>version = na, savedAt = t - 40 * 86400000, scriptFile = fa, successRate = Some 0.9, runCount = ca\<rparr>,
        \<lparr>version = nb, savedAt = t - 1 * 86400000, scriptFile = fb, successRate = Some 0.6, runCount = cb\<rparr>]
       = \<lparr>version = nb, savedAt = t - 1 * 86400000, scriptFile = fb, successRate = Some 0.6, runCount = cb\<rparr>"
    by (simp add: rollbackTarget_def score_def recency_def maxAgeMs_def)
  have example': "rollbackTargetByRate
       [\<lparr>version = na, savedAt = t - 40 * 86400000, scriptFile = fa, successRate = Some 0.9, runCount = ca\<rparr>,
        \<lparr>version = nb, savedAt = t - 1 * 86400000, scriptFile = fb, successRate = Some 0.6, runCount = cb\<rparr>]
       = \<lparr>version = na, savedAt = t - 40 * 86400000, scriptFile = fa, successRate = Some 0.9, runCount = ca\<rparr>"
    by (simp add: rollbackTargetByRate_def less_eq_prod_def)
  from all mem mem' run run' example example' show ?thesis by blast
qed

lemma rollbackExample_facts:
  "versions rollbackExample \<noteq> []"
  "nextVersionOf (versions rollbackExample) = 3"
  "historyWritten (versions rollbackExample)"
  "files rollbackExample ''script.ts'' = Some ''current''"
  "archiveName 3 = ''script.v3.ts''"
  "rollbackTarget (40 * 86400000) (versions rollbackExample) = versions rollbackExample ! 1"
  "rollbackTargetByRate (versions rollbackExample) = versions rollbackExample ! 0"
proof -
  show n: "nextVersionOf (versions rollbackExample) = 3"
    by (simp add: rollbackExample_def nextVersionOf_def)
  have a: "archiveName 1 = ''script.v1.ts''" "archiveName 2 = ''script.v2.ts''"
    "archiveName (Suc 0) = ''script.v1.ts''"
    by (simp_all add: archiveName_def decimal.simps)
  show "archiveName 3 = ''script.v3.ts''" by (simp add: archiveName_def decimal.simps)
  show "historyWritten (versions rollbackExample)"
    unfolding historyWritten_def n by (simp add: rollbackExample_def a)
  show "rollbackTarget (40 * 86400000) (versions rollbackExample) = versions rollbackExample ! 1"
    by (simp add: rollbackExample_def rollbackTarget_def score_def recency_def maxAgeMs_def)
  show "rollbackTargetByRate (versions rollbackExample) = versions rollbackExample ! 0"
    by (simp add: rollbackExample_def rollbackTargetByRate_def less_eq_prod_def)
qed (simp_all add: rollbackExample_def)

theorem rollback_restores_best_witness:
  "versions rollbackExample \<noteq> [] \<and> historyWritten (versions rollbackExample) \<and>
   files rollbackExample ''script.ts'' = Some ''current'' \<and>
   fst (rollback (40 * 86400000) rollbackExample) \<and>
   map (files (snd (rollback (40 * 86400000) rollbackExample)))
     [''script.ts'', ''script.v1.ts'', ''script.v2.ts'', ''script.v3.ts''] =
     [Some ''B'', Some ''A'', Some ''B'', Some ''current''] \<and>
   map version (versions (snd (rollback (40 * 86400000) rollbackExample))) = [1, 2, 3] \<and>
   fst (rollbackByRate (40 * 86400000) rollbackExample) \<and>
   map (files (snd (rollbackByRate (40 * 86400000) rollbackExample)))
     [''script.ts'', ''script.v1.ts'', ''script.v2.ts'', ''script.v3.ts''] =
     [Some ''A'', Some ''A'', Some ''B'', Some ''current''] \<and>
   map version (versions (snd (rollbackByRate (40 * 86400000) rollbackExample))) = [1, 2, 3]"
proof -
  note f = rollbackExample_facts
  have b: "files rollbackExample (scriptFile (versions rollbackExample ! 1)) = Some ''B''"
    and a: "files rollbackExample (scriptFile (versions rollbackExample ! 0)) = Some ''A''"
    by (simp_all add: rollbackExample_def)
  have r: "rollback (40 * 86400000) rollbackExample =
      (True,
       \<lparr>files = (files rollbackExample)(''script.v3.ts'' \<mapsto> ''current'', ''script.ts'' \<mapsto> ''B''),
        versions = versions rollbackExample @
          [\<lparr>version = 3, savedAt = 40 * 86400000, scriptFile = ''script.v3.ts'',
            successRate = None, runCount = Some 0\<rparr>]\<rparr>)"
    using rollback_restores_best [OF f(1) f(3) f(4), where now = "40 * 86400000" and restored = "''B''"
      and t = 0 and na = 0 and fa = "[]" and ca = None and nb = 0 and fb = "[]" and cb = None,
      THEN conjunct2, THEN conjunct2, THEN conjunct2, THEN conjunct1]
    unfolding f(2,5,6) using b by simp
  have r': "rollbackByRate (40 * 86400000) rollbackExample =
      (True,
       \<lparr>files = (files rollbackExample)(''script.v3.ts'' \<mapsto> ''current'', ''script.ts'' \<mapsto> ''A''),
        versions = versions rollbackExample @
          [\<lparr>version = 3, savedAt = 40 * 86400000, scriptFile = ''script.v3.ts'',
            successRate = None, runCount = Some 0\<rparr>]\<rparr>)"
    using rollback_restores_best [OF f(1) f(3) f(4), where now = "40 * 86400000" and restored = "''A''"
      and t = 0 and na = 0 and fa = "[]" and ca = None and nb = 0 and fb = "[]" and cb = None,
      THEN conjunct2, THEN conjunct2, THEN conjunct2, THEN conjunct2, THEN conjunct1]
    unfolding f(2,5,7) using a by simp
  show ?thesis
    unfolding r r' using f(1,3,4) by (simp add: rollbackExample_def)
qed

text \<open>
  On the example of the claim, the revision of \<^verbatim>\<open>rollback\<close> in lib/flow-versioning.ts
  restores the version with success rate 0.9 saved 40 days ago, whose score is the lower
  one.
\<close>

theorem rollback_counterexample:
  "fst (rollbackByRate (40 * 86400000) rollbackExample) \<and>
   files (snd (rollbackByRate (40 * 86400000) rollbackExample)) ''script.ts'' = Some ''A'' \<and>
   files rollbackExample ''script.v1.ts'' = Some ''A'' \<and>
   map scriptFile (versions rollbackExample) = [''script.v1.ts'', ''script.v2.ts''] \<and>
   map (score (40 * 86400000)) (versions rollbackExample) = [63 / 100, 71 / 100]"
  by (simp add: rollbackByRate_def rollbackTargetByRate_def less_eq_prod_def rollbackExample_def
        archiveCurrentScript_def Let_def score_def recency_def maxAgeMs_def nextVersionOf_def
        archiveName_def decimal.simps)

section \<open>Properties of element resolution\<close>

lemma prioritizedSelectors_order:
  "prioritizedSelectors sels =
     (if truthy (testId sels) then [the (testId sels)] else []) @
     (if truthy (aria sels) then [the (aria sels)] else []) @
     (if truthy (text_sel sels) then [''text='' @ the (text_sel sels)] else []) @
     (if truthy (css sels) then [the (css sels)] else []) @
     (if truthy (xpath sels) then [''xpath='' @ the (xpath sels)] else [])"
  by (simp add: prioritizedSelectors_def Let_def)

lemma resolveLocator_scan_none:
  "(\<forall>h c. br h (IsVisible f c 3000) \<noteq> Flag True) \<Longrightarrow>
   resolveLocator_scan br f xs hist = (None, hist @ map (\<lambda>p. IsVisible f p 3000) xs)"
  by (induction xs arbitrary: hist) (auto split: reply.splits bool.splits)

lemma resolveLocator_scan_first:
  "(\<forall>h. \<forall>p\<in>set pre. br h (IsVisible f p 3000) \<noteq> Flag True) \<Longrightarrow>
   (\<forall>h. br h (IsVisible f c 3000) = Flag True) \<Longrightarrow>
   resolveLocator_scan br f (pre @ c # post) hist =
     (Some c, hist @ map (\<lambda>p. IsVisible f p 3000) (pre @ [c]))"
  by (induction pre arbitrary: hist) (auto split: reply.splits bool.splits)

lemma resolveLocator_scan_mem:
  "fst (resolveLocator_scan br f xs hist) = Some c \<Longrightarrow> c \<in> set xs"
  by (induction xs arbitrary: hist) (auto split: reply.splits bool.splits)

lemma backoffs_waits [simp]:
  "backoffs (hist @ map (\<lambda>p. WaitForVisible None p 5000) xs) = backoffs hist"
  by (induction xs rule: rev_induct) (simp_all add: backoffs_def flip: append_assoc)

lemma backoffs_sleep [simp]: "backoffs (hist @ [Sleep d]) = Suc (backoffs hist)"
  by (simp add: backoffs_def)

text \<open>One round over the candidates, on a page that is the same throughout the round.\<close>

lemma resilientLocator_scan_none:
  "(\<forall>h. backoffs h = n \<longrightarrow> (\<forall>p\<in>set xs. \<exists>m. br h (WaitForVisible None p 5000) = Failed m)) \<Longrightarrow>
   backoffs hist = n \<Longrightarrow>
   resilientLocator_scan br xs hist = (None, hist @ map (\<lambda>p. WaitForVisible None p 5000) xs)"
proof (induction xs arbitrary: hist)
  case Nil
  show ?case by simp
next
  case (Cons x xs)
  from Cons.prems obtain m where m: "br hist (WaitForVisible None x 5000) = Failed m" by auto
  have b: "backoffs (hist @ [WaitForVisible None x 5000]) = n"
    using Cons.prems(2) by (simp add: backoffs_def)
  have "resilientLocator_scan br xs (hist @ [WaitForVisible None x 5000]) =
      (None, (hist @ [WaitForVisible None x 5000]) @ map (\<lambda>p. WaitForVisible None p 5000) xs)"
    using Cons.prems(1) b by (intro Cons.IH) auto
  with m show ?case by simp
qed

lemma resilientLocator_scan_first:
  "(\<forall>h. backoffs h = n \<longrightarrow> (\<forall>p\<in>set pre. \<exists>m. br h (WaitForVisible None p 5000) = Failed m)) \<Longrightarrow>
   (\<forall>h m. backoffs h = n \<longrightarrow> br h (WaitForVisible None c 5000) \<noteq> Failed m) \<Longrightarrow>
   backoffs hist = n \<Longrightarrow>
   resilientLocator_scan br (pre @ c # post) hist =
     (Some c, hist @ map (\<lambda>p. WaitForVisible None p 5000) (pre @ [c]))"
proof (induction pre arbitrary: hist)
  case Nil
  then show ?case by (auto split: reply.splits)
next
  case (Cons x xs)
  from Cons.prems obtain m where m: "br hist (WaitForVisible None x 5000) = Failed m" by auto
  have b: "backoffs (hist @ [WaitForVisible None x 5000]) = n"
    using Cons.prems(3) by (simp add: backoffs_def)
  have "resilientLocator_scan br (xs @ c # post) (hist @ [WaitForVisible None x 5000]) =
      (Some c, (hist @ [WaitForVisible None x 5000]) @ map (\<lambda>p. WaitForVisible None p 5000) (xs @ [c]))"
    using Cons.prems(1,2) b by (intro Cons.IH) auto
  with m show ?case by simp
qed

text \<open>The three ways in which a round of \<^verbatim>\<open>resilientLocator\<close> ends.\<close>

lemma resilientLocator_loop_found:
  "a \<le> maxRetries cfg \<Longrightarrow> resilientLocator_scan br xs hist = (Some c, h') \<Longrightarrow>
   resilientLocator_loop br xs cfg a le hist = (Inr (None, c), h')"
  by (subst resilientLocator_loop.simps) simp

lemma resilientLocator_loop_retry:
  "a < maxRetries cfg \<Longrightarrow> resilientLocator_scan br xs hist = (None, h') \<Longrightarrow>
   resilientLocator_loop br xs cfg a le hist =
     resilientLocator_loop br xs cfg (Suc a)
       (''No selector matched for step. Tried: '' @ join '', '' xs)
       (h' @ [Sleep (calcBackoff a cfg)])"
  by (subst resilientLocator_loop.simps) (simp add: Let_def)

lemma resilientLocator_loop_last:
  "a = maxRetries cfg \<Longrightarrow> resilientLocator_scan br xs hist = (None, h') \<Longrightarrow>
   resilientLocator_loop br xs cfg a le hist =
     (Inl (''No selector matched for step. Tried: '' @ join '', '' xs), h')"
proof -
  have after: "\<And>le' h. resilientLocator_loop br xs cfg (Suc (maxRetries cfg)) le' h = (Inl le', h)"
    by (subst resilientLocator_loop.simps) simp
  show "a = maxRetries cfg \<Longrightarrow> resilientLocator_scan br xs hist = (None, h') \<Longrightarrow> ?thesis"
    by (subst resilientLocator_loop.simps) (simp add: after Let_def)
qed

lemma retryRounds_last:
  "retryRounds cfg xs (maxRetries cfg) (Suc (maxRetries cfg)) = map (\<lambda>p. WaitForVisible None p 5000) xs"
  by (simp add: retryRounds_def)

lemma retryRounds_empty: "retryRounds cfg xs a a = []"
  by (simp add: retryRounds_def)

lemma retryRounds_step:
  "a < b \<Longrightarrow> a < maxRetries cfg \<Longrightarrow>
   retryRounds cfg xs a b =
     map (\<lambda>p. WaitForVisible None p 5000) xs @ [Sleep (calcBackoff a cfg)] @ retryRounds cfg xs (Suc a) b"
  by (simp add: retryRounds_def upt_conv_Cons)

text \<open>Every wait fails: all \<open>maxRetries + 1\<close> rounds are made, and the error is thrown.\<close>

lemma resilientLocator_loop_exhausted:
  "(\<forall>h c. \<exists>m. br h (WaitForVisible None c 5000) = Failed m) \<Longrightarrow> a \<le> maxRetries cfg \<Longrightarrow>
   resilientLocator_loop br xs cfg a le hist =
     (Inl (''No selector matched for step. Tried: '' @ join '', '' xs),
      hist @ retryRounds cfg xs a (Suc (maxRetries cfg)))"
proof (induction "maxRetries cfg - a" arbitrary: a le hist)
  case 0
  then have a: "a = maxRetries cfg" by simp
  have none: "resilientLocator_scan br xs hist = (None, hist @ map (\<lambda>p. WaitForVisible None p 5000) xs)"
    using "0.prems"(1) by (intro resilientLocator_scan_none [where n = "backoffs hist"]) auto
  show ?case
    unfolding resilientLocator_loop_last [OF a none] using a by (simp add: retryRounds_last)
next
  case (Suc n)
  then have lt: "a < maxRetries cfg" by simp
  have none: "resilientLocator_scan br xs hist = (None, hist @ map (\<lambda>p. WaitForVisible None p 5000) xs)"
    using Suc.prems(1) by (intro resilientLocator_scan_none [where n = "backoffs hist"]) auto
  have n: "n = maxRetries cfg - Suc a" using Suc.hyps(2) by simp
  from lt have le': "Suc a \<le> maxRetries cfg" by simp
  have lt': "a < Suc (maxRetries cfg)" using lt by simp
  show ?case
    unfolding resilientLocator_loop_retry [OF lt none] Suc.hyps(1) [OF n Suc.prems(1) le']
    by (simp add: retryRounds_step [OF lt' lt])
qed

text \<open>
  The element appears after \<open>k\<close> backoff sleeps: \<open>k\<close> rounds fail, each followed by its
  sleep, and the next round returns the first candidate that is visible.
\<close>

lemma resilientLocator_loop_later:
  "(\<forall>h p. backoffs h < b \<longrightarrow> (\<exists>m. br h (WaitForVisible None p 5000) = Failed m)) \<Longrightarrow>
   (\<forall>h. backoffs h = b \<longrightarrow> (\<forall>p\<in>set pre. \<exists>m. br h (WaitForVisible None p 5000) = Failed m)) \<Longrightarrow>
   (\<forall>h m. backoffs h = b \<longrightarrow> br h (WaitForVisible None c 5000) \<noteq> Failed m) \<Longrightarrow>
   backoffs hist + (k - a) = b \<Longrightarrow> a \<le> k \<Longrightarrow> k \<le> maxRetries cfg \<Longrightarrow>
   resilientLocator_loop br (pre @ c # post) cfg a le hist =
     (Inr (None, c),
      hist @ retryRounds cfg (pre @ c # post) a k @ map (\<lambda>p. WaitForVisible None p 5000) (pre @ [c]))"
proof (induction "k - a" arbitrary: a le hist)
  case 0
  then have b: "backoffs hist = b" and a: "a \<le> maxRetries cfg" and ak: "a = k" by simp_all
  have first: "resilientLocator_scan br (pre @ c # post) hist =
      (Some c, hist @ map (\<lambda>p. WaitForVisible None p 5000) (pre @ [c]))"
    using "0.prems"(2,3) b by (rule resilientLocator_scan_first)
  show ?case
    unfolding resilientLocator_loop_found [OF a first] using ak by (simp add: retryRounds_empty)
next
  case (Suc n)
  then have lt: "a < maxRetries cfg" and ak: "a < k" by simp_all
  from Suc.prems(4) ak have bl: "backoffs hist < b" by simp
  have none: "resilientLocator_scan br (pre @ c # post) hist =
      (None, hist @ map (\<lambda>p. WaitForVisible None p 5000) (pre @ c # post))"
    using Suc.prems(1) bl by (intro resilientLocator_scan_none [where n = "backoffs hist"]) auto
  have n: "n = k - Suc a" using Suc.hyps(2) by simp
  have b': "backoffs ((hist @ map (\<lambda>p. WaitForVisible None p 5000) (pre @ c # post)) @
      [Sleep (calcBackoff a cfg)]) + (k - Suc a) = b"
    using Suc.prems(4) ak unfolding backoffs_sleep backoffs_waits by simp
  from ak have le': "Suc a \<le> k" by simp
  show ?case
    unfolding resilientLocator_loop_retry [OF lt none]
      Suc.hyps(1) [OF n Suc.prems(1,2,3) b' le' Suc.prems(6)]
    by (simp add: retryRounds_step [OF ak lt])
qed

text \<open>
  Claim C3, as the two resolvers behave. The candidates are tried in the fixed order test
  id, ARIA, visible text, CSS path, XPath, absent strategies being skipped. Inside an
  active frame each candidate is asked once whether it is visible, in that order; the
  first that answers visible is returned, and when none does the first candidate is
  returned all the same (a selector set with no candidate at all is an error). With no
  active frame the resolver is \<^verbatim>\<open>resilientLocator\<close> with the default retry policy. It waits
  for each candidate in order and returns the first whose wait succeeds; a round in which
  every wait fails is followed by a backoff sleep of \<^verbatim>\<open>calcBackoff attempt\<close> and a new round
  over the whole list, so an element that appears after \<open>k \<le> maxRetries\<close> sleeps is found
  in round \<open>k\<close>; and when every wait fails, \<open>maxRetries + 1\<close> rounds are made, with a sleep
  between two rounds, and resolution fails with the error
  \<^verbatim>\<open>No selector matched for step. Tried: ...\<close>, returning no candidate.
\<close>

theorem element_resolution:
  "prioritizedSelectors sels =
     (if truthy (testId sels) then [the (testId sels)] else []) @
     (if truthy (aria sels) then [the (aria sels)] else []) @
     (if truthy (text_sel sels) then [''text='' @ the (text_sel sels)] else []) @
     (if truthy (css sels) then [the (css sels)] else []) @
     (if truthy (xpath sels) then [''xpath='' @ the (xpath sels)] else []) \<and>
   (truthy fr \<and> prioritizedSelectors sels = pre @ c # post \<and>
      (\<forall>h. \<forall>p\<in>set pre. br h (IsVisible (the fr) p 3000) \<noteq> Flag True) \<and>
      (\<forall>h. br h (IsVisible (the fr) c 3000) = Flag True) \<longrightarrow>
      resolveLocator br sels fr hist =
        (Inr (fr, c), hist @ map (\<lambda>p. IsVisible (the fr) p 3000) (pre @ [c]))) \<and>
   (truthy fr \<and> prioritizedSelectors sels \<noteq> [] \<and>
      (\<forall>h p. br h (IsVisible (the fr) p 3000) \<noteq> Flag True) \<longrightarrow>
      resolveLocator br sels fr hist =
        (Inr (fr, hd (prioritizedSelectors sels)),
         hist @ map (\<lambda>p. IsVisible (the fr) p 3000) (prioritizedSelectors sels))) \<and>
   (truthy fr \<and> prioritizedSelectors sels = [] \<longrightarrow>
      resolveLocator br sels fr hist =
        (Inl (''No selector matched in frame '' @ quoted (the fr) @ '' for step''), hist)) \<and>
   (\<not> truthy fr \<longrightarrow>
      resolveLocator br sels fr hist = resilientLocator br sels DEFAULT_RETRY_CONFIG hist) \<and>
   (prioritizedSelectors sels = pre @ c # post \<and> k \<le> maxRetries cfg \<and>
      (\<forall>h p. backoffs h < backoffs hist + k \<longrightarrow> (\<exists>m. br h (WaitForVisible None p 5000) = Failed m)) \<and>
      (\<forall>h. backoffs h = backoffs hist + k \<longrightarrow>
         (\<forall>p\<in>set pre. \<exists>m. br h (WaitForVisible None p 5000) = Failed m) \<and>
         (\<forall>m. br h (WaitForVisible None c 5000) \<noteq> Failed m)) \<longrightarrow>
      resilientLocator br sels cfg hist =
        (Inr (None, c),
         hist @ retryRounds cfg (prioritizedSelectors sels) 0 k @
           map (\<lambda>p. WaitForVisible None p 5000) (pre @ [c]))) \<and>
   ((\<forall>h p. \<exists>m. br h (WaitForVisible None p 5000) = Failed m) \<longrightarrow>
      resilientLocator br sels cfg hist =
        (Inl (''No selector matched for step. Tried: '' @ join '', '' (prioritizedSelectors sels)),
         hist @ retryRounds cfg (prioritizedSelectors sels) 0 (Suc (maxRetries cfg))))"
proof (intro conjI impI)
  show "prioritizedSelectors sels =
     (if truthy (testId sels) then [the (testId sels)] else []) @
     (if truthy (aria sels) then [the (aria sels)] else []) @
     (if truthy (text_sel sels) then [''text='' @ the (text_sel sels)] else []) @
     (if truthy (css sels) then [the (css sels)] else []) @
     (if truthy (xpath sels) then [''xpath='' @ the (xpath sels)] else [])"
    by (rule prioritizedSelectors_order)
next
  assume a: "truthy fr \<and> prioritizedSelectors sels = pre @ c # post \<and>
      (\<forall>h. \<forall>p\<in>set pre. br h (IsVisible (the fr) p 3000) \<noteq> Flag True) \<and>
      (\<forall>h. br h (IsVisible (the fr) c 3000) = Flag True)"
  then obtain f where f: "fr = Some f" by (auto simp: truthy_def split: option.splits)
  from a f have "resolveLocator_scan br f (pre @ c # post) hist =
      (Some c, hist @ map (\<lambda>p. IsVisible f p 3000) (pre @ [c]))"
    by (intro resolveLocator_scan_first) auto
  with a f show "resolveLocator br sels fr hist =
        (Inr (fr, c), hist @ map (\<lambda>p. IsVisible (the fr) p 3000) (pre @ [c]))"
    by (simp add: resolveLocator_def Let_def)
next
  assume a: "truthy fr \<and> prioritizedSelectors sels \<noteq> [] \<and>
      (\<forall>h p. br h (IsVisible (the fr) p 3000) \<noteq> Flag True)"
  then obtain f where f: "fr = Some f" by (auto simp: truthy_def split: option.splits)
  from a f have "resolveLocator_scan br f (prioritizedSelectors sels) hist =
      (None, hist @ map (\<lambda>p. IsVisible f p 3000) (prioritizedSelectors sels))"
    by (intro resolveLocator_scan_none) auto
  with a f show "resolveLocator br sels fr hist =
        (Inr (fr, hd (prioritizedSelectors sels)),
         hist @ map (\<lambda>p. IsVisible (the fr) p 3000) (prioritizedSelectors sels))"
    by (simp add: resolveLocator_def Let_def)
next
  assume a: "truthy fr \<and> prioritizedSelectors sels = []"
  then obtain f where f: "fr = Some f" by (auto simp: truthy_def split: option.splits)
  with a show "resolveLocator br sels fr hist =
        (Inl (''No selector matched in frame '' @ quoted (the fr) @ '' for step''), hist)"
    by (simp add: resolveLocator_def Let_def quoted_def)
next
  assume "\<not> truthy fr"
  then show "resolveLocator br sels fr hist = resilientLocator br sels DEFAULT_RETRY_CONFIG hist"
    by (simp add: resolveLocator_def)
next
  assume a: "prioritizedSelectors sels = pre @ c # post \<and> k \<le> maxRetries cfg \<and>
      (\<forall>h p. backoffs h < backoffs hist + k \<longrightarrow> (\<exists>m. br h (WaitForVisible None p 5000) = Failed m)) \<and>
      (\<forall>h. backoffs h = backoffs hist + k \<longrightarrow>
         (\<forall>p\<in>set pre. \<exists>m. br h (WaitForVisible None p 5000) = Failed m) \<and>
         (\<forall>m. br h (WaitForVisible None c 5000) \<noteq> Failed m))"
  have "resilientLocator_loop br (pre @ c # post) cfg 0 ''No selectors available'' hist =
     (Inr (None, c),
      hist @ retryRounds cfg (pre @ c # post) 0 k @ map (\<lambda>p. WaitForVisible None p 5000) (pre @ [c]))"
    using a by (intro resilientLocator_loop_later [where b = "backoffs hist + k"]) auto
  with a show "resilientLocator br sels cfg hist =
        (Inr (None, c),
         hist @ retryRounds cfg (prioritizedSelectors sels) 0 k @
           map (\<lambda>p. WaitForVisible None p 5000) (pre @ [c]))"
    by (simp add: resilientLocator_def)
next
  assume "\<forall>h p. \<exists>m. br h (WaitForVisible None p 5000) = Failed m"
  then show "resilientLocator br sels cfg hist =
        (Inl (''No selector matched for step. Tried: '' @ join '', '' (prioritizedSelectors sels)),
         hist @ retryRounds cfg (prioritizedSelectors sels) 0 (Suc (maxRetries cfg)))"
    by (simp add: resilientLocator_def resilientLocator_loop_exhausted)
qed

lemma submitSelectors_order [simp]:
  "prioritizedSelectors submitSelectors = [''[data-testid=x]'', ''button.submit'']"
  by (simp add: prioritizedSelectors_def submitSelectors_def noSelectors_def truthy_def)

lemma DEFAULT_backoffs:
  "calcBackoff 0 DEFAULT_RETRY_CONFIG = 500" "calcBackoff 1 DEFAULT_RETRY_CONFIG = 1000"
  "calcBackoff 2 DEFAULT_RETRY_CONFIG = 2000" "maxRetries DEFAULT_RETRY_CONFIG = 3"
  by (simp_all add: calcBackoff_def DEFAULT_RETRY_CONFIG_def)

lemma retryRounds_default:
  "retryRounds DEFAULT_RETRY_CONFIG xs 0 (Suc 0) = map (\<lambda>p. WaitForVisible None p 5000) xs @ [Sleep 500]"
  "retryRounds DEFAULT_RETRY_CONFIG xs 0 0 = []"
  "retryRounds DEFAULT_RETRY_CONFIG xs 0 4 =
     map (\<lambda>p. WaitForVisible None p 5000) xs @ [Sleep 500] @
     map (\<lambda>p. WaitForVisible None p 5000) xs @ [Sleep 1000] @
     map (\<lambda>p. WaitForVisible None p 5000) xs @ [Sleep 2000] @
     map (\<lambda>p. WaitForVisible None p 5000) xs"
  by (simp_all add: retryRounds_def calcBackoff_def DEFAULT_RETRY_CONFIG_def upt_conv_Cons)

theorem element_resolution_witness:
  "prioritizedSelectors submitSelectors = [''[data-testid=x]'', ''button.submit''] \<and>
   resolveLocator cssVisible submitSelectors (Some ''iframe#pay'') [] =
     (Inr (Some ''iframe#pay'', ''button.submit''),
      [IsVisible ''iframe#pay'' ''[data-testid=x]'' 3000, IsVisible ''iframe#pay'' ''button.submit'' 3000]) \<and>
   resolveLocator neverVisible submitSelectors (Some ''iframe#pay'') [] =
     (Inr (Some ''iframe#pay'', ''[data-testid=x]''),
      [IsVisible ''iframe#pay'' ''[data-testid=x]'' 3000, IsVisible ''iframe#pay'' ''button.submit'' 3000]) \<and>
   resolveLocator neverVisible noSelectors (Some ''iframe#pay'') [] =
     (Inl (''No selector matched in frame '' @ quoted ''iframe#pay'' @ '' for step''), []) \<and>
   resolveLocator cssVisible submitSelectors None [] =
     (Inr (None, ''button.submit''),
      [WaitForVisible None ''[data-testid=x]'' 5000, WaitForVisible None ''button.submit'' 5000]) \<and>
   resolveLocator appearsAfterBackoff submitSelectors None [] =
     (Inr (None, ''button.submit''),
      [WaitForVisible None ''[data-testid=x]'' 5000, WaitForVisible None ''button.submit'' 5000,
       Sleep 500,
       WaitForVisible None ''[data-testid=x]'' 5000, WaitForVisible None ''button.submit'' 5000]) \<and>
   resolveLocator neverVisible submitSelectors None [] =
     (Inl ''No selector matched for step. Tried: [data-testid=x], button.submit'',
      [WaitForVisible None ''[data-testid=x]'' 5000, WaitForVisible None ''button.submit'' 5000,
       Sleep 500,
       WaitForVisible None ''[data-testid=x]'' 5000, WaitForVisible None ''button.submit'' 5000,
       Sleep 1000,
       WaitForVisible None ''[data-testid=x]'' 5000, WaitForVisible None ''button.submit'' 5000,
       Sleep 2000,
       WaitForVisible None ''[data-testid=x]'' 5000, WaitForVisible None ''button.submit'' 5000])"
proof -
  have t: "truthy (Some ''iframe#pay'')" "\<not> truthy None"
    by (simp_all add: truthy_def)
  have n: "prioritizedSelectors noSelectors = []"
    by (simp add: prioritizedSelectors_def noSelectors_def truthy_def)
  have z: "backoffs [] = 0" by (simp add: backoffs_def)
  have a: "resolveLocator cssVisible submitSelectors (Some ''iframe#pay'') [] =
     (Inr (Some ''iframe#pay'', ''button.submit''),
      [IsVisible ''iframe#pay'' ''[data-testid=x]'' 3000, IsVisible ''iframe#pay'' ''button.submit'' 3000])"
    using element_resolution [where sels = submitSelectors and fr = "Some ''iframe#pay''"
      and pre = "[''[data-testid=x]'']" and c = "''button.submit''" and post = "[]"
      and br = cssVisible and hist = "[]" and cfg = DEFAULT_RETRY_CONFIG and k = 0]
    by (simp add: t cssVisible_def)
  have b: "resolveLocator neverVisible submitSelectors (Some ''iframe#pay'') [] =
     (Inr (Some ''iframe#pay'', ''[data-testid=x]''),
      [IsVisible ''iframe#pay'' ''[data-testid=x]'' 3000, IsVisible ''iframe#pay'' ''button.submit'' 3000])"
    using element_resolution [where sels = submitSelectors and fr = "Some ''iframe#pay''"
      and pre = "[''[data-testid=x]'']" and c = "''button.submit''" and post = "[]"
      and br = neverVisible and hist = "[]" and cfg = DEFAULT_RETRY_CONFIG and k = 0]
    by (simp add: t neverVisible_def)
  have b': "resolveLocator neverVisible noSelectors (Some ''iframe#pay'') [] =
     (Inl (''No selector matched in frame '' @ quoted ''iframe#pay'' @ '' for step''), [])"
    using element_resolution [where sels = noSelectors and fr = "Some ''iframe#pay''"
      and pre = "[''[data-testid=x]'']" and c = "''button.submit''" and post = "[]"
      and br = neverVisible and hist = "[]" and cfg = DEFAULT_RETRY_CONFIG and k = 0]
    by (simp add: t n)
  have c: "resolveLocator cssVisible submitSelectors None [] =
     (Inr (None, ''button.submit''),
      [WaitForVisible None ''[data-testid=x]'' 5000, WaitForVisible None ''button.submit'' 5000])"
    using element_resolution [where sels = submitSelectors and fr = None
      and pre = "[''[data-testid=x]'']" and c = "''button.submit''" and post = "[]"
      and br = cssVisible and hist = "[]" and cfg = DEFAULT_RETRY_CONFIG and k = 0]
    by (simp add: t z cssVisible_def retryRounds_default)
  have d: "resolveLocator appearsAfterBackoff submitSelectors None [] =
     (Inr (None, ''button.submit''),
      [WaitForVisible None ''[data-testid=x]'' 5000, WaitForVisible None ''button.submit'' 5000,
       Sleep 500,
       WaitForVisible None ''[data-testid=x]'' 5000, WaitForVisible None ''button.submit'' 5000])"
    using element_resolution [where sels = submitSelectors and fr = None
      and pre = "[''[data-testid=x]'']" and c = "''button.submit''" and post = "[]"
      and br = appearsAfterBackoff and hist = "[]" and cfg = DEFAULT_RETRY_CONFIG and k = 1]
    by (simp add: t z appearsAfterBackoff_def retryRounds_default DEFAULT_backoffs)
  have e: "resolveLocator neverVisible submitSelectors None [] =
     (Inl ''No selector matched for step. Tried: [data-testid=x], button.submit'',
      [WaitForVisible None ''[data-testid=x]'' 5000, WaitForVisible None ''button.submit'' 5000,
       Sleep 500,
       WaitForVisible None ''[data-testid=x]'' 5000, WaitForVisible None ''button.submit'' 5000,
       Sleep 1000,
       WaitForVisible None ''[data-testid=x]'' 5000, WaitForVisible None ''button.submit'' 5000,
       Sleep 2000,
       WaitForVisible None ''[data-testid=x]'' 5000, WaitForVisible None ''button.submit'' 5000])"
    using element_resolution [where sels = submitSelectors and fr = None
      and pre = "[''[data-testid=x]'']" and c = "''button.submit''" and post = "[]"
      and br = neverVisible and hist = "[]" and cfg = DEFAULT_RETRY_CONFIG and k = 0]
    by (simp add: t neverVisible_def retryRounds_default DEFAULT_backoffs)
  from a b b' c d e show ?thesis by simp
qed

text \<open>
  On a page where nothing becomes visible, \<^verbatim>\<open>resilientLocator\<close> does not fall back to the
  first candidate: it throws.
\<close>

theorem element_resolution_counterexample:
  "fst (resilientLocator neverVisible submitSelectors DEFAULT_RETRY_CONFIG []) =
     Inl ''No selector matched for step. Tried: [data-testid=x], button.submit'' \<and>
   fst (resilientLocator neverVisible submitSelectors DEFAULT_RETRY_CONFIG []) \<noteq>
     Inr (None, hd (prioritizedSelectors submitSelectors))"
  by (simp add: resilientLocator_def resilientLocator_loop.simps DEFAULT_RETRY_CONFIG_def
        neverVisible_def calcBackoff_def)

section \<open>Properties of the step dispatcher\<close>






lemma failWith_frame [simp]: "frameScope (failWith br s m shot r st) = frameScope st"
  by (simp add: failWith_def split: prod.splits)

lemma applyDelay_frame [simp]: "frameScope (applyDelay opts st) = frameScope st"
  by (simp add: applyDelay_def)


text \<open>
  The calls a piece of the executor adds to the history, all of them inside the frame.
\<close>

lemma addsScoped_refl [simp]: "addsScoped f hist hist"
  by (simp add: addsScoped_def)

















section \<open>Properties of the run loop\<close>

lemma applyDelay_fields [simp]:
  "shots (applyDelay opts st) = shots st"
  "stepsCompleted (applyDelay opts st) = stepsCompleted st"
  "stepError (applyDelay opts st) = stepError st"
  "thrown (applyDelay opts st) = thrown st"
  by (simp_all add: applyDelay_def)

lemma applyDelay_callLog [simp]: "applyDelay opts st\<lparr>callLog := h\<rparr> = st\<lparr>callLog := h\<rparr>"
  by (simp add: applyDelay_def)

lemma failWith_fields [simp]:
  "shots (failWith br s m shot r st) = shots st"
  "stepsCompleted (failWith br s m shot r st) = stepsCompleted st"
  "thrown (failWith br s m shot r st) = thrown st"
  "stepError (failWith br s m shot r st) =
     Some \<lparr>step = index s, error_type = step_type s, message = m, screenshot = shot,
           error_url = textOf (br (callLog st) PageUrl), retriesAttempted = r\<rparr>"
  "callLog (failWith br s m shot r st) = callLog st @ [PageUrl]"
  by (simp_all add: failWith_def perform_def)

lemma runSteps_step:
  "runSteps br hn opts doc sub dir (s # rest) st =
     (case gate hn opts doc s of
        Some m \<Rightarrow> applyDelay opts st\<lparr>thrown := Some m\<rparr>
      | None \<Rightarrow>
          (case executeStep br s sub dir (frameScope st) (callLog (applyDelay opts st)) of
             (Inr fr, h1) \<Rightarrow>
               runSteps br hn opts doc sub dir rest
                 (st\<lparr>callLog := h1, frameScope := fr, stepsCompleted := Suc (stepsCompleted st)\<rparr>)
           | (Inl errMsg, h1) \<Rightarrow>
               (case onStepFailure br opts doc sub dir s errMsg (st\<lparr>callLog := h1\<rparr>) of
                  (True, st1) \<Rightarrow> runSteps br hn opts doc sub dir rest st1
                | (False, st1) \<Rightarrow> st1)))"
  by (simp add: Let_def split: option.split prod.split sum.split bool.split)

lemma onStepFailure_cases:
  assumes "onStepFailure br opts doc sub dir s e st = (go, st1)"
  shows "thrown st1 = thrown st \<and>
         (go \<longrightarrow> stepsCompleted st1 = Suc (stepsCompleted st) \<and> stepError st1 = stepError st) \<and>
         (\<not> go \<longrightarrow> stepsCompleted st1 = stepsCompleted st \<and> stepError st1 \<noteq> None)"
  using assms
  by (auto simp: onStepFailure_def Let_def split: prod.splits sum.splits if_splits)

declare runSteps.simps(2) [simp del]

lemma runSteps_outcome:
  assumes "thrown st = None" and "\<forall>s\<in>set ss. gate hn opts doc s = None"
  shows "thrown (runSteps br hn opts doc sub dir ss st) = None \<and>
         stepsCompleted (runSteps br hn opts doc sub dir ss st) \<le> stepsCompleted st + length ss \<and>
         (stepError (runSteps br hn opts doc sub dir ss st) = None \<longrightarrow>
            stepsCompleted (runSteps br hn opts doc sub dir ss st) = stepsCompleted st + length ss)"
  using assms
proof (induction ss arbitrary: st)
  case Nil
  then show ?case by simp
next
  case (Cons s ss)
  then have g: "gate hn opts doc s = None" and gs: "\<forall>x\<in>set ss. gate hn opts doc x = None"
    by simp_all
  obtain r h1 where ex: "executeStep br s sub dir (frameScope st) (callLog (applyDelay opts st)) = (r, h1)"
    by (cases "executeStep br s sub dir (frameScope st) (callLog (applyDelay opts st))")
  show ?case
  proof (cases r)
    case (Inr fr)
    let ?st = "st\<lparr>callLog := h1, frameScope := fr, stepsCompleted := Suc (stepsCompleted st)\<rparr>"
    have "thrown ?st = None" using Cons.prems(1) by simp
    from Cons.IH [OF this gs] g ex Inr show ?thesis
      by (simp add: runSteps_step)
  next
    case (Inl e)
    obtain go st1 where f: "onStepFailure br opts doc sub dir s e (st\<lparr>callLog := h1\<rparr>) = (go, st1)"
      by (cases "onStepFailure br opts doc sub dir s e (st\<lparr>callLog := h1\<rparr>)")
    note c = onStepFailure_cases [OF f]
    show ?thesis
    proof (cases go)
      case True
      with c Cons.prems(1) have "thrown st1 = None" "stepsCompleted st1 = Suc (stepsCompleted st)"
        by simp_all
      with Cons.IH [OF this(1) gs] g ex Inl f True show ?thesis
        by (simp add: runSteps_step)
    next
      case False
      with c Cons.prems(1) g ex Inl f show ?thesis
        by (simp add: runSteps_step)
    qed
  qed
qed








lemmas run_eval =
  execute_def runSteps_step gate_def executeStep_def onStepFailure_def failWith_def
  afterSteps_def finallyBlock_def resultOf_def applyDelay_def captureScreenshot_def
  isAuthFailure_def authPatterns_def failPatterns_def textOf_def perform_def await_def
  returning_def onLocator_def resolveLocator_def resilientLocator_def
  resilientLocator_loop.simps DEFAULT_RETRY_CONFIG_def prioritizedSelectors_def truthy_def
  orElse_def assertDomainAllowed_def securityMessage_def gate_eval decimal.simps
  navigateStep_def clickStep_def frameStep_def noSelectors_def myFlow_def initialState_def
  Let_def













lemma onStepFailure_recovered:
  assumes "captureScreenshot br (''fail_step_'' @ decimal (index s)) h1 = (shot, h2)"
    and "isAuthFailure br h2 = (True, h3)"
    and "await br (RunAuthFlow (name opts) (meta_url (metadata doc))) h3 = (Inr (), h4)"
    and "executeStep br s sub dir (frameScope st) h4 = (Inr fr, h5)"
  shows "onStepFailure br opts doc sub dir s e (st\<lparr>callLog := h1\<rparr>) =
    (True, st\<lparr>callLog := h5, shots := (if shot \<noteq> [] then shots st @ [shot] else shots st),
              frameScope := fr, stepsCompleted := Suc (stepsCompleted st)\<rparr>)"
  using assms by (simp add: onStepFailure_def Let_def)

lemma onStepFailure_retry_failed:
  assumes "captureScreenshot br (''fail_step_'' @ decimal (index s)) h1 = (shot, h2)"
    and "isAuthFailure br h2 = (True, h3)"
    and "await br (RunAuthFlow (name opts) (meta_url (metadata doc))) h3 = (Inr (), h4)"
    and "executeStep br s sub dir (frameScope st) h4 = (Inl authErr, h5)"
  shows "onStepFailure br opts doc sub dir s e (st\<lparr>callLog := h1\<rparr>) =
    (False, st\<lparr>callLog := h5 @ [PageUrl], shots := (if shot \<noteq> [] then shots st @ [shot] else shots st),
               stepError := Some \<lparr>step = index s, error_type = step_type s, message = authErr,
                 screenshot = shot, error_url = textOf (br h5 PageUrl), retriesAttempted = 1\<rparr>\<rparr>)"
  using assms by (simp add: onStepFailure_def Let_def failWith_def perform_def)

lemma onStepFailure_recovery_failed:
  assumes "captureScreenshot br (''fail_step_'' @ decimal (index s)) h1 = (shot, h2)"
    and "isAuthFailure br h2 = (True, h3)"
    and "await br (RunAuthFlow (name opts) (meta_url (metadata doc))) h3 = (Inl authErr, h4)"
  shows "onStepFailure br opts doc sub dir s e (st\<lparr>callLog := h1\<rparr>) =
    (False, st\<lparr>callLog := h4 @ [PageUrl], shots := (if shot \<noteq> [] then shots st @ [shot] else shots st),
               stepError := Some \<lparr>step = index s, error_type = step_type s, message = authErr,
                 screenshot = shot, error_url = textOf (br h4 PageUrl), retriesAttempted = 1\<rparr>\<rparr>)"
  using assms by (simp add: onStepFailure_def Let_def failWith_def perform_def)

text \<open>
  Claim C6. A step that has passed the gate fails, and the page looks unauthenticated.
  If the login sub-flow succeeds, the step is executed once more; when that succeeds the
  run counts the step and goes on with the steps after it, and when that fails the run
  ends there, with no second recovery, in a step error that carries \<open>retriesAttempted = 1\<close>.
  If the login sub-flow fails, the run ends with a step error for the step that failed,
  with the message of the login error and \<open>retriesAttempted = 1\<close>. A flow of three steps
  whose second step fails on an expired session, is recovered and then succeeds, returns
  success with three steps completed and no step error.
\<close>

theorem auth_recovery:
  assumes "gate hn opts doc s = None"
    and "executeStep br s sub dir (frameScope st) (callLog (applyDelay opts st)) = (Inl errMsg, h1)"
    and "captureScreenshot br (''fail_step_'' @ decimal (index s)) h1 = (shot, h2)"
    and "isAuthFailure br h2 = (True, h3)"
  shows
   "(await br (RunAuthFlow (name opts) (meta_url (metadata doc))) h3 = (Inr (), h4) \<and>
     executeStep br s sub dir (frameScope st) h4 = (Inr fr, h5) \<longrightarrow>
       runSteps br hn opts doc sub dir (s # rest) st =
         runSteps br hn opts doc sub dir rest
           (st\<lparr>callLog := h5, shots := (if shot \<noteq> [] then shots st @ [shot] else shots st),
                frameScope := fr, stepsCompleted := Suc (stepsCompleted st)\<rparr>)) \<and>
    (await br (RunAuthFlow (name opts) (meta_url (metadata doc))) h3 = (Inr (), h4) \<and>
     executeStep br s sub dir (frameScope st) h4 = (Inl authErr, h5) \<longrightarrow>
       runSteps br hn opts doc sub dir (s # rest) st =
         st\<lparr>callLog := h5 @ [PageUrl], shots := (if shot \<noteq> [] then shots st @ [shot] else shots st),
            stepError := Some \<lparr>step = index s, error_type = step_type s, message = authErr,
               screenshot = shot, error_url = textOf (br h5 PageUrl), retriesAttempted = 1\<rparr>\<rparr>) \<and>
    (await br (RunAuthFlow (name opts) (meta_url (metadata doc))) h3 = (Inl authErr, h4) \<longrightarrow>
       runSteps br hn opts doc sub dir (s # rest) st =
         st\<lparr>callLog := h4 @ [PageUrl], shots := (if shot \<noteq> [] then shots st @ [shot] else shots st),
            stepError := Some \<lparr>step = index s, error_type = step_type s, message = authErr,
               screenshot = shot, error_url = textOf (br h4 PageUrl), retriesAttempted = 1\<rparr>\<rparr>) \<and>
    (case fst (execute expiredSession urlHostname id dir myFlow (Some threeSteps)) of
       Returns r \<Rightarrow> success r \<and> steps_completed r = 3 \<and> error r = None
     | _ \<Rightarrow> False)"
proof (intro conjI impI)
  assume a: "await br (RunAuthFlow (name opts) (meta_url (metadata doc))) h3 = (Inr (), h4) \<and>
     executeStep br s sub dir (frameScope st) h4 = (Inr fr, h5)"
  from onStepFailure_recovered [OF assms(3,4) conjunct1 [OF a] conjunct2 [OF a], of e for e]
  show "runSteps br hn opts doc sub dir (s # rest) st =
         runSteps br hn opts doc sub dir rest
           (st\<lparr>callLog := h5, shots := (if shot \<noteq> [] then shots st @ [shot] else shots st),
                frameScope := fr, stepsCompleted := Suc (stepsCompleted st)\<rparr>)"
    using assms(1,2) by (simp add: runSteps_step)
next
  assume a: "await br (RunAuthFlow (name opts) (meta_url (metadata doc))) h3 = (Inr (), h4) \<and>
     executeStep br s sub dir (frameScope st) h4 = (Inl authErr, h5)"
  from onStepFailure_retry_failed [OF assms(3,4) conjunct1 [OF a] conjunct2 [OF a], of e for e]
  show "runSteps br hn opts doc sub dir (s # rest) st =
         st\<lparr>callLog := h5 @ [PageUrl], shots := (if shot \<noteq> [] then shots st @ [shot] else shots st),
            stepError := Some \<lparr>step = index s, error_type = step_type s, message = authErr,
               screenshot = shot, error_url = textOf (br h5 PageUrl), retriesAttempted = 1\<rparr>\<rparr>"
    using assms(1,2) by (simp add: runSteps_step)
next
  assume a: "await br (RunAuthFlow (name opts) (meta_url (metadata doc))) h3 = (Inl authErr, h4)"
  from onStepFailure_recovery_failed [OF assms(3,4) a, of e for e]
  show "runSteps br hn opts doc sub dir (s # rest) st =
         st\<lparr>callLog := h4 @ [PageUrl], shots := (if shot \<noteq> [] then shots st @ [shot] else shots st),
            stepError := Some \<lparr>step = index s, error_type = step_type s, message = authErr,
               screenshot = shot, error_url = textOf (br h4 PageUrl), retriesAttempted = 1\<rparr>\<rparr>"
    using assms(1,2) by (simp add: runSteps_step)
next
  show "case fst (execute expiredSession urlHostname id dir myFlow (Some threeSteps)) of
       Returns r \<Rightarrow> success r \<and> steps_completed r = 3 \<and> error r = None
     | _ \<Rightarrow> False"
    by (simp add: run_eval threeSteps_def expiredSession_def)
qed

theorem auth_recovery_witness:
  "gate urlHostname myFlow threeSteps (clickStep 2 ''#save'') = None \<and>
   executeStep expiredSession (clickStep 2 ''#save'') id ''/flows/my-flow'' None [] =
     (Inl ''Timeout 30000ms exceeded'',
      [WaitForVisible None ''#save'' 5000, LocClick (None, ''#save'')]) \<and>
   isAuthFailure expiredSession
     [WaitForVisible None ''#save'' 5000, LocClick (None, ''#save''), CaptureScreenshot ''fail_step_2''] =
     (True, [WaitForVisible None ''#save'' 5000, LocClick (None, ''#save''),
             CaptureScreenshot ''fail_step_2'', PageUrl]) \<and>
   runSteps expiredSession urlHostname myFlow threeSteps id ''/flows/my-flow''
       [clickStep 2 ''#save'', clickStep 3 ''#done''] (initialState []) =
     runSteps expiredSession urlHostname myFlow threeSteps id ''/flows/my-flow''
       [clickStep 3 ''#done'']
       ((initialState [])
          \<lparr>callLog := [WaitForVisible None ''#save'' 5000, LocClick (None, ''#save''),
                       CaptureScreenshot ''fail_step_2'', PageUrl,
                       RunAuthFlow ''my-flow'' ''https://app.example.com/login'',
                       WaitForVisible None ''#save'' 5000, LocClick (None, ''#save'')],
            shots := [''fail_step_2.png''], stepsCompleted := 1\<rparr>) \<and>
   runSteps lockedOut urlHostname myFlow threeSteps id ''/flows/my-flow''
       [clickStep 2 ''#save'', clickStep 3 ''#done''] (initialState []) =
     (initialState [])
       \<lparr>callLog := [WaitForVisible None ''#save'' 5000, LocClick (None, ''#save''),
                    CaptureScreenshot ''fail_step_2'', PageUrl,
                    RunAuthFlow ''my-flow'' ''https://app.example.com/login'', PageUrl],
         shots := [''fail_step_2.png''],
         stepError := Some \<lparr>step = 2, error_type = ''click'', message = ''Login failed'',
            screenshot = ''fail_step_2.png'', error_url = ''https://app.example.com/Login?next=home'',
            retriesAttempted = 1\<rparr>\<rparr>"
proof -
  let ?h1 = "[WaitForVisible None ''#save'' 5000, LocClick (None, ''#save'')]"
  let ?h2 = "?h1 @ [CaptureScreenshot ''fail_step_2'']"
  let ?h3 = "?h2 @ [PageUrl]"
  let ?h4 = "?h3 @ [RunAuthFlow ''my-flow'' ''https://app.example.com/login'']"
  let ?h5 = "?h4 @ ?h1"
  have idx: "decimal (index (clickStep 2 ''#save'')) = ''2''"
    by (simp add: clickStep_def decimal.simps)
  have st0: "frameScope (initialState []) = None" "callLog (applyDelay myFlow (initialState [])) = []"
    "shots (initialState []) = []" "stepsCompleted (initialState []) = 0"
    by (simp_all add: initialState_def applyDelay_def myFlow_def)
  have nm: "name myFlow = ''my-flow''" "meta_url (metadata threeSteps) = ''https://app.example.com/login''"
    by (simp_all add: myFlow_def threeSteps_def)
  have g: "gate urlHostname myFlow threeSteps (clickStep 2 ''#save'') = None"
    by (simp add: gate_def clickStep_def)
  have click: "\<And>br. br = expiredSession \<or> br = lockedOut \<Longrightarrow>
      executeStep br (clickStep 2 ''#save'') id ''/flows/my-flow'' None [] =
        (Inl ''Timeout 30000ms exceeded'', ?h1)"
    by (auto simp: executeStep_def clickStep_def noSelectors_def returning_def onLocator_def
          resolveLocator_def resilientLocator_def resilientLocator_loop.simps
          DEFAULT_RETRY_CONFIG_def prioritizedSelectors_def truthy_def await_def Let_def
          expiredSession_def lockedOut_def)
  have shot: "\<And>br. br = expiredSession \<or> br = lockedOut \<Longrightarrow>
      captureScreenshot br (''fail_step_'' @ ''2'') ?h1 = (''fail_step_2.png'', ?h2)"
    by (auto simp: captureScreenshot_def perform_def textOf_def expiredSession_def lockedOut_def Let_def)
  have auth: "\<And>br. br = expiredSession \<or> br = lockedOut \<Longrightarrow> isAuthFailure br ?h2 = (True, ?h3)"
    by (auto simp: isAuthFailure_def perform_def textOf_def expiredSession_def lockedOut_def Let_def
          authPatterns_def toLowerCase_def lowerChar_def startsWith_def)
  have login: "await expiredSession (RunAuthFlow ''my-flow'' ''https://app.example.com/login'') ?h3 =
      (Inr (), ?h4)"
    by (simp add: await_def expiredSession_def)
  have nologin: "await lockedOut (RunAuthFlow ''my-flow'' ''https://app.example.com/login'') ?h3 =
      (Inl ''Login failed'', ?h4)"
    by (simp add: await_def lockedOut_def)
  have retry: "executeStep expiredSession (clickStep 2 ''#save'') id ''/flows/my-flow'' None ?h4 =
      (Inr None, ?h5)"
    by (simp add: executeStep_def clickStep_def noSelectors_def returning_def onLocator_def
          resolveLocator_def resilientLocator_def resilientLocator_loop.simps
          DEFAULT_RETRY_CONFIG_def prioritizedSelectors_def truthy_def await_def Let_def
          expiredSession_def)
  have url: "textOf (lockedOut ?h4 PageUrl) = ''https://app.example.com/Login?next=home''"
    by (simp add: textOf_def lockedOut_def expiredSession_def)
  note T = auth_recovery [where hn = urlHostname and opts = myFlow and doc = threeSteps
      and s = "clickStep 2 ''#save''" and sub = id and dir = "''/flows/my-flow''"
      and st = "initialState []" and errMsg = "''Timeout 30000ms exceeded''" and ?h1.0 = ?h1
      and shot = "''fail_step_2.png''" and ?h2.0 = ?h2 and ?h3.0 = ?h3 and ?h4.0 = ?h4
      and rest = "[clickStep 3 ''#done'']", unfolded idx st0 nm, OF g]
  from T [where br = expiredSession and ?h5.0 = ?h5 and fr = None and authErr = "[]",
      OF click shot auth] login retry
  have a: "runSteps expiredSession urlHostname myFlow threeSteps id ''/flows/my-flow''
       [clickStep 2 ''#save'', clickStep 3 ''#done''] (initialState []) =
     runSteps expiredSession urlHostname myFlow threeSteps id ''/flows/my-flow''
       [clickStep 3 ''#done'']
       ((initialState [])\<lparr>callLog := ?h5, shots := [''fail_step_2.png''], stepsCompleted := 1\<rparr>)"
    by (simp add: initialState_def)
  from T [where br = lockedOut and ?h5.0 = "[]" and fr = None and authErr = "''Login failed''",
      OF click shot auth] nologin url
  have b: "runSteps lockedOut urlHostname myFlow threeSteps id ''/flows/my-flow''
       [clickStep 2 ''#save'', clickStep 3 ''#done''] (initialState []) =
     (initialState [])
       \<lparr>callLog := ?h4 @ [PageUrl], shots := [''fail_step_2.png''],
         stepError := Some \<lparr>step = 2, error_type = ''click'', message = ''Login failed'',
            screenshot = ''fail_step_2.png'', error_url = ''https://app.example.com/Login?next=home'',
            retriesAttempted = 1\<rparr>\<rparr>"
    by (simp add: clickStep_def)
  from g click [of expiredSession] auth [of expiredSession] a b show ?thesis by simp
qed

end
